theory Spec2Isabelle
  imports Main "HOL-Library.Sublist" "HOL-Library.Char_ord" "HOL-Library.List_Lexorder"
    "HOL-Library.AList"
begin

section \<open>Python strings\<close>

text \<open>
  A Python \<open>str\<close> is a sequence of code points. The model is \<open>string\<close>, a list of
  \<open>char\<close>, each \<open>char\<close> read as the code point of the same number (U+0000 to U+00FF).
  Text with code points above U+00FF is outside the model.
\<close>

definition ord :: "char \<Rightarrow> nat" where
  "ord c = of_char c"

text \<open>
  \<open>str.isspace\<close> on one code point. \<open>str.strip()\<close>, \<open>str.split()\<close> and the \<open>\s\<close> of a
  \<open>str\<close> pattern all use this class: TAB, LF, VT, FF, CR, FS, GS, RS, US, SPACE, NEL, NBSP.
\<close>

definition isspace :: "char \<Rightarrow> bool" where
  "isspace c = (let n = ord c in
     (9 \<le> n \<and> n \<le> 13) \<or> (28 \<le> n \<and> n \<le> 32) \<or> n = 133 \<or> n = 160)"

text \<open>\<open>str.lower()\<close>: A-Z, and the capital letters of U+00C0 to U+00DE (without U+00D7).\<close>

definition lower_char :: "char \<Rightarrow> char" where
  "lower_char c = (let n = ord c in
     if (65 \<le> n \<and> n \<le> 90) \<or> (192 \<le> n \<and> n \<le> 222 \<and> n \<noteq> 215)
     then char_of (n + 32) else c)"

definition lower :: "string \<Rightarrow> string" where
  "lower s = map lower_char s"

definition strip :: "string \<Rightarrow> string" where
  "strip s = rev (dropWhile isspace (rev (dropWhile isspace s)))"

definition startswith :: "string \<Rightarrow> string \<Rightarrow> bool" where
  "startswith s p = prefix p s"

text \<open>\<open>sub in s\<close>: \<open>sub\<close> occurs in \<open>s\<close> as a contiguous substring.\<close>

fun str_in :: "string \<Rightarrow> string \<Rightarrow> bool" where
  "str_in sub [] = (sub = [])"
| "str_in sub (c # cs) = (prefix sub (c # cs) \<or> str_in sub cs)"

text \<open>
  The first occurrence of a separator: the text before it and the text after it
  (\<open>str.partition\<close> without the separator), \<open>None\<close> when there is none.
\<close>

fun split_first :: "string \<Rightarrow> string \<Rightarrow> (string \<times> string) option" where
  "split_first sep [] = None"
| "split_first sep (c # cs) =
     (if prefix sep (c # cs) then Some ([], drop (length sep) (c # cs))
      else (case split_first sep cs of
              None \<Rightarrow> None
            | Some (a, b) \<Rightarrow> Some (c # a, b)))"

lemma split_first_length:
  "split_first sep s = Some (a, b) \<Longrightarrow> length a + length sep + length b = length s"
proof (induction s arbitrary: a b)
  case Nil
  then show ?case by simp
next
  case (Cons c cs)
  show ?case
  proof (cases "prefix sep (c # cs)")
    case True
    then have "length sep \<le> length (c # cs)" by (rule prefix_length_le)
    with True Cons.prems show ?thesis by auto
  next
    case False
    with Cons.prems obtain a' where a': "split_first sep cs = Some (a', b)" "a = c # a'"
      by (auto split: option.splits)
    from Cons.IH [OF a'(1)] a'(2) show ?thesis by simp
  qed
qed

text \<open>
  \<open>s.split(sep)\<close> for a separator: the pieces between the occurrences of \<open>sep\<close>, found
  from the left without overlap. Python raises ValueError for an empty separator; every
  call of the program passes a literal one, and the model returns \<open>[]\<close> there.
\<close>

function py_split :: "string \<Rightarrow> string \<Rightarrow> string list" where
  "py_split sep s =
     (if sep = [] then []
      else (case split_first sep s of
              None \<Rightarrow> [s]
            | Some (a, b) \<Rightarrow> a # py_split sep b))"
  by pat_completeness auto
termination
proof (relation "measure (\<lambda>(sep, s). length s)")
  show "wf (measure (\<lambda>(sep, s). length s))" by simp
next
  fix sep s :: string and x2 :: "string \<times> string" and a b :: string
  assume "sep \<noteq> []" and "split_first sep s = Some x2" and "(a, b) = x2"
  then have "length a + length sep + length b = length s"
    by (simp add: split_first_length)
  with \<open>sep \<noteq> []\<close> show "((sep, b), (sep, s)) \<in> measure (\<lambda>(sep, s). length s)"
    by (cases sep) auto
qed

declare py_split.simps [simp del]

text \<open>\<open>s.split(sep, 1)\<close>: at most one split, at the first occurrence.\<close>

definition py_split_max1 :: "string \<Rightarrow> string \<Rightarrow> string list" where
  "py_split_max1 sep s =
     (case split_first sep s of None \<Rightarrow> [s] | Some (a, b) \<Rightarrow> [a, b])"

text \<open>\<open>s.split()\<close>: the maximal runs of characters that are not whitespace.\<close>

fun split_ws_acc :: "string \<Rightarrow> string \<Rightarrow> string list" where
  "split_ws_acc acc [] = (if acc = [] then [] else [rev acc])"
| "split_ws_acc acc (c # cs) =
     (if isspace c
      then (if acc = [] then split_ws_acc [] cs else rev acc # split_ws_acc [] cs)
      else split_ws_acc (c # acc) cs)"

definition split_ws :: "string \<Rightarrow> string list" where
  "split_ws s = split_ws_acc [] s"

text \<open>\<open>sep.join(xs)\<close>.\<close>

fun join :: "string \<Rightarrow> string list \<Rightarrow> string" where
  "join sep [] = []"
| "join sep [x] = x"
| "join sep (x # y # ys) = x @ sep @ join sep (y # ys)"

section \<open>Regular expressions\<close>

text \<open>
  The part of Python's \<open>re\<close> that \<open>PACKAGE_REGEX\<close> uses: a character class, the greedy
  \<open>*\<close> and \<open>+\<close> of a class, sequence, the greedy \<open>?\<close>, and capturing group 1.
\<close>

datatype rx =
    Cls "char \<Rightarrow> bool"
  | StarC "char \<Rightarrow> bool"
  | PlusC "char \<Rightarrow> bool"
  | Seq rx rx
  | Opt rx
  | Grp rx

text \<open>
  The alternatives of the backtracking matcher at the start of a text, in the order it
  tries them: the text consumed, the text of group 1 when the group took part, and the
  rest of the input. A greedy operator tries the longer match first.
\<close>

fun star_alts :: "(char \<Rightarrow> bool) \<Rightarrow> string \<Rightarrow> (string \<times> string) list" where
  "star_alts P [] = [([], [])]"
| "star_alts P (c # cs) =
     (if P c then map (\<lambda>(x, r). (c # x, r)) (star_alts P cs) @ [([], c # cs)]
      else [([], c # cs)])"

fun alts :: "rx \<Rightarrow> string \<Rightarrow> (string \<times> string option \<times> string) list" where
  "alts (Cls P) s = (case s of [] \<Rightarrow> [] | c # cs \<Rightarrow> if P c then [([c], None, cs)] else [])"
| "alts (StarC P) s = map (\<lambda>(x, r). (x, None, r)) (star_alts P s)"
| "alts (PlusC P) s =
     (case s of
        [] \<Rightarrow> []
      | c # cs \<Rightarrow> if P c then map (\<lambda>(x, r). (c # x, None, r)) (star_alts P cs) else [])"
| "alts (Seq a b) s =
     concat (map (\<lambda>(x, g, r).
                    map (\<lambda>(y, g', r'). (x @ y, (case g' of None \<Rightarrow> g | Some t \<Rightarrow> Some t), r'))
                      (alts b r))
               (alts a s))"
| "alts (Opt a) s = alts a s @ [([], None, s)]"
| "alts (Grp a) s = map (\<lambda>(x, g, r). (x, Some x, r)) (alts a s)"

text \<open>\<open>pattern.match(s)\<close>: the first alternative, as group 0 and group 1; \<open>None\<close> when
  there is none.\<close>

definition re_match :: "rx \<Rightarrow> string \<Rightarrow> (string \<times> string option) option" where
  "re_match r s = (case alts r s of [] \<Rightarrow> None | (x, g, rest) # other \<Rightarrow> Some (x, g))"

section \<open>The package-name pattern\<close>

text \<open>
  \<open>PACKAGE_REGEX = ^\s*([a-zA-Z0-9\-_]+(?:\[[a-zA-Z0-9\-_,]+\])?)\s*\<close>. The pattern is
  only used through \<open>match\<close>, which is anchored at the start as \<open>^\<close> is.
\<close>

definition name_char :: "char \<Rightarrow> bool" where
  "name_char c = (let n = ord c in
     (97 \<le> n \<and> n \<le> 122) \<or> (65 \<le> n \<and> n \<le> 90) \<or> (48 \<le> n \<and> n \<le> 57)
     \<or> c = CHR ''-'' \<or> c = CHR ''_'')"

definition extras_char :: "char \<Rightarrow> bool" where
  "extras_char c = (name_char c \<or> c = CHR '','')"

definition EXTRAS :: rx where
  "EXTRAS = Seq (Cls (\<lambda>c. c = CHR ''['')) (Seq (PlusC extras_char) (Cls (\<lambda>c. c = CHR '']'')))"

definition PACKAGE_REGEX :: rx where
  "PACKAGE_REGEX =
     Seq (StarC isspace) (Seq (Grp (Seq (PlusC name_char) (Opt EXTRAS))) (StarC isspace))"

text \<open>
  \<open>match = PACKAGE_REGEX.match(line)\<close>, as \<open>match.group(1)\<close> when there is a match. Group 1
  takes part in every match of this pattern.
\<close>

definition PACKAGE_REGEX_match :: "string \<Rightarrow> string option" where
  "PACKAGE_REGEX_match line =
     (case re_match PACKAGE_REGEX line of
        Some (whole, Some group1) \<Rightarrow> Some group1
      | _ \<Rightarrow> None)"

text \<open>\<open>match.group(1).lower().split('[')[0]\<close>: the key of a dependency specifier.\<close>

definition package_key :: "string \<Rightarrow> string" where
  "package_key g = hd (py_split ''['' (lower g))"

section \<open>Pinning\<close>

text \<open>Line 104: a line is unpinned if it is a package and has no \<open>==\<close>.\<close>

definition is_unpinned :: "string \<Rightarrow> bool" where
  "is_unpinned line = (PACKAGE_REGEX_match line \<noteq> None \<and> \<not> str_in ''=='' line)"

fun needs_pinning :: "string list \<Rightarrow> bool" where
  "needs_pinning [] = False"
| "needs_pinning (line # rest) = (if is_unpinned line then True else needs_pinning rest)"

text \<open>
  The installed-package map of lines 116 to 120, a dict comprehension over the lines of
  the freeze output: a later line overrides an earlier one with the same key.
\<close>

fun installed_loop :: "(string \<rightharpoonup> string) \<Rightarrow> string list \<Rightarrow> (string \<rightharpoonup> string)" where
  "installed_loop m [] = m"
| "installed_loop m (line # rest) =
     (let full_spec = strip line
      in if str_in ''=='' full_spec
         then (let name = hd (py_split ''=='' full_spec)
               in if name \<noteq> [] then installed_loop (m(lower name \<mapsto> full_spec)) rest
                  else installed_loop m rest)
         else installed_loop m rest)"

definition installed_packages :: "string \<Rightarrow> (string \<rightharpoonup> string)" where
  "installed_packages stdout =
     installed_loop Map.empty (py_split ''\<newline>'' (strip stdout))"

definition apos :: string where
  "apos = [CHR 0x27]"

text \<open>
  One turn of the loop of lines 123 to 148: the line appended to \<open>new_lines\<close> and the
  lines it prints.
\<close>

definition pin_step :: "(string \<rightharpoonup> string) \<Rightarrow> string \<Rightarrow> string \<times> string list" where
  "pin_step installed line =
     (let line_stripped = strip line
      in if line_stripped = [] \<or> startswith line_stripped ''#'' then (line, [])
         else (case PACKAGE_REGEX_match line of
                 None \<Rightarrow> (line, [])
               | Some g \<Rightarrow>
                   if \<not> str_in ''=='' line
                   then (let package_name = package_key g
                         in case installed package_name of
                              Some pinned_version \<Rightarrow>
                                (let new_line =
                                   (if str_in ''#'' line
                                    then pinned_version @ ''  # ''
                                           @ strip (py_split_max1 ''#'' line ! 1) @ ''\<newline>''
                                    else pinned_version @ ''\<newline>'')
                                 in (new_line,
                                     [''>> Pinned '' @ apos @ package_name @ apos @ '' to ''
                                        @ apos @ strip pinned_version @ apos]))
                            | None \<Rightarrow> (line, []))
                   else (line, [])))"

definition pin_line :: "(string \<rightharpoonup> string) \<Rightarrow> string \<Rightarrow> string" where
  "pin_line installed line = fst (pin_step installed line)"

fun pin_loop :: "(string \<rightharpoonup> string) \<Rightarrow> string list \<Rightarrow> string list \<times> string list" where
  "pin_loop installed [] = ([], [])"
| "pin_loop installed (line # rest) =
     (let (new_line, printed) = pin_step installed line;
          (new_lines, printed_rest) = pin_loop installed rest
      in (new_line # new_lines, printed @ printed_rest))"

definition pin_lines :: "(string \<rightharpoonup> string) \<Rightarrow> string list \<Rightarrow> string list" where
  "pin_lines installed lines = fst (pin_loop installed lines)"

section \<open>Text files\<close>

text \<open>
  Reading in text mode (\<open>open(..., 'r')\<close>, and \<open>run(..., text=True)\<close> for the output of
  a process) translates the line endings CR LF and CR to LF. Writing on a POSIX system
  (the program runs \<open>venv/bin/python\<close>) writes LF as it is.
\<close>

fun universal_newlines :: "string \<Rightarrow> string" where
  "universal_newlines [] = []"
| "universal_newlines [c] = (if c = CHR 0x0D then ''\<newline>'' else [c])"
| "universal_newlines (c # d # ds) =
     (if c = CHR 0x0D
      then (if d = CHR 0x0A then CHR 0x0A # universal_newlines ds
            else CHR 0x0A # universal_newlines (d # ds))
      else c # universal_newlines (d # ds))"

text \<open>The lines of a text, each with its LF (the last line may have none).\<close>

fun splitlines :: "string \<Rightarrow> string list" where
  "splitlines [] = []"
| "splitlines (c # cs) =
     (if c = CHR 0x0A then [c] # splitlines cs
      else (case splitlines cs of
              [] \<Rightarrow> [[c]]
            | l # ls \<Rightarrow> (c # l) # ls))"

text \<open>\<open>f.readlines()\<close> and \<open>f.writelines(lines)\<close> on the text of a file.\<close>

definition readlines :: "string \<Rightarrow> string list" where
  "readlines content = splitlines (universal_newlines content)"

definition writelines :: "string list \<Rightarrow> string" where
  "writelines lines = concat lines"

section \<open>The world of a run\<close>

text \<open>
  A path is the list of its components, as \<open>pathlib\<close> keeps and compares it. The file
  system maps a path to a regular file with its text or to a directory. Permissions,
  links, special files and undecodable bytes are outside the model.
\<close>

type_synonym path = "string list"

datatype node = File string | Dir

type_synonym files = "(path \<times> node) list"

datatype proc_result = CommandNotFound | Completed int string string

text \<open>
  What \<open>subprocess.run\<close> meets: the executable is missing, or the process completes with
  a return code, its standard output and its standard error. A process may change the
  files. The behaviour of the external commands is a parameter of the model.
\<close>

type_synonym proc = "string list \<Rightarrow> files \<Rightarrow> proc_result \<times> files"

datatype exn =
    SystemExit nat
  | FileNotFoundError string
  | IsADirectoryError string
  | EOFError
  | AttributeError

record world =
  fs :: files
  out :: "string list"
  stdin :: "string list"
  calls :: "(string list \<times> proc_result) list"

definition print :: "string \<Rightarrow> world \<Rightarrow> world" where
  "print s w = w\<lparr>out := out w @ [s]\<rparr>"

definition prints :: "string list \<Rightarrow> world \<Rightarrow> world" where
  "prints ss w = w\<lparr>out := out w @ ss\<rparr>"

definition lookup :: "world \<Rightarrow> path \<Rightarrow> node option" where
  "lookup w p = map_of (fs w) p"

definition is_file :: "world \<Rightarrow> path \<Rightarrow> bool" where
  "is_file w p = (case lookup w p of Some (File t) \<Rightarrow> True | _ \<Rightarrow> False)"

definition is_dir :: "world \<Rightarrow> path \<Rightarrow> bool" where
  "is_dir w d = (lookup w d = Some Dir \<or> list_ex (\<lambda>(p, n). strict_prefix d p) (fs w))"

text \<open>\<open>str(path)\<close>.\<close>

definition path_str :: "path \<Rightarrow> string" where
  "path_str p = join ''/'' p"

text \<open>The errors of \<open>open\<close>, with the messages the operating system gives.\<close>

definition no_such_file :: "path \<Rightarrow> exn" where
  "no_such_file p =
     FileNotFoundError (''[Errno 2] No such file or directory: '' @ apos @ path_str p @ apos)"

definition is_a_directory :: "path \<Rightarrow> exn" where
  "is_a_directory p =
     IsADirectoryError (''[Errno 21] Is a directory: '' @ apos @ path_str p @ apos)"

text \<open>
  \<open>open(p, 'r')\<close> and reading the file to its end: the stored text. A missing path raises
  FileNotFoundError, a directory IsADirectoryError.
\<close>

definition open_read :: "world \<Rightarrow> path \<Rightarrow> exn + string" where
  "open_read w p =
     (case lookup w p of
        None \<Rightarrow> Inl (no_such_file p)
      | Some Dir \<Rightarrow> Inl (is_a_directory p)
      | Some (File t) \<Rightarrow> Inr t)"

text \<open>
  \<open>open(p, 'w')\<close>: the file is created, or emptied when it is there. A directory raises
  IsADirectoryError. \<open>write_text\<close> is what is written to the open file.
\<close>

definition open_write :: "path \<Rightarrow> world \<Rightarrow> exn + world" where
  "open_write p w =
     (case lookup w p of
        Some Dir \<Rightarrow> Inl (is_a_directory p)
      | _ \<Rightarrow> Inr (w\<lparr>fs := AList.update p (File []) (fs w)\<rparr>))"

definition write_text :: "path \<Rightarrow> string \<Rightarrow> world \<Rightarrow> world" where
  "write_text p t w = w\<lparr>fs := AList.update p (File t) (fs w)\<rparr>"

text \<open>\<open>input(prompt)\<close>: the prompt goes to standard output; a line is read, without its
  line ending, or EOFError is raised at the end of the stream.\<close>

definition input :: "string \<Rightarrow> world \<Rightarrow> (exn + string) \<times> world" where
  "input prompt w =
     (let w1 = print prompt w
      in case stdin w1 of
           [] \<Rightarrow> (Inl EOFError, w1)
         | l # ls \<Rightarrow> (Inr l, w1\<lparr>stdin := ls\<rparr>))"

text \<open>\<open>str(n)\<close> for an integer, in decimal.\<close>

fun str_nat :: "nat \<Rightarrow> string" where
  "str_nat n =
     (if n < 10 then [char_of (48 + n)]
      else str_nat (n div 10) @ [char_of (48 + n mod 10)])"

declare str_nat.simps [simp del]

definition str_int :: "int \<Rightarrow> string" where
  "str_int i = (if i < 0 then ''-'' @ str_nat (nat (- i)) else str_nat (nat i))"

section \<open>Configuration\<close>

definition PYTHON_VERSION :: "string option" where
  "PYTHON_VERSION = Some ''3.9''"

definition VENV_DIR :: string where
  "VENV_DIR = ''venv''"

definition REQUIREMENTS_FILE :: string where
  "REQUIREMENTS_FILE = ''requirements.txt''"

definition PYTHON_EXECUTABLE :: string where
  "PYTHON_EXECUTABLE =
     (case PYTHON_VERSION of
        None \<Rightarrow> ''python3''
      | Some v \<Rightarrow> if v = [] then ''python3'' else ''python'' @ v)"

section \<open>run_command\<close>

text \<open>
  \<open>run(command, check=True, capture_output=capture, text=True)\<close>. The result is the
  \<open>stdout\<close> attribute of the completed process: the text when captured, \<open>None\<close> when not.
  Both except clauses end in \<open>sys_exit(1)\<close>. Every caller passes a non-empty command.
\<close>

definition run_command :: "proc \<Rightarrow> string list \<Rightarrow> bool \<Rightarrow> world \<Rightarrow> (exn + string option) \<times> world" where
  "run_command proc command capture w =
     (let w1 = print (''>> Running command: '' @ join '' '' command) w;
          (r, fs') = proc command (fs w1);
          w2 = w1\<lparr>fs := fs', calls := calls w1 @ [(command, r)]\<rparr>
      in case r of
           CommandNotFound \<Rightarrow>
             (Inl (SystemExit 1),
              print (''>> Error: Command not found: '' @ hd command @ ''. Is it in your PATH?'') w2)
         | Completed returncode so se \<Rightarrow>
             if returncode \<noteq> 0
             then (Inl (SystemExit 1),
                   prints ([''>> Error executing command: '' @ join '' '' command,
                            ''>> Return code: '' @ str_int returncode]
                           @ (if capture
                              then [''>>   Stdout: '' @ strip (universal_newlines so),
                                    ''>>   Stderr: '' @ strip (universal_newlines se)]
                              else [])) w2)
             else (Inr (if capture then Some (universal_newlines so) else None), w2))"

section \<open>source_and_combine_requirements\<close>

text \<open>
  \<open>Path('.').glob('*/requirements.txt')\<close>: the entries of that name one directory down,
  regular files and directories alike, each once, in the order the directory listing
  gives.
\<close>

definition is_sub_manifest :: "path \<Rightarrow> bool" where
  "is_sub_manifest p = (case p of [d, f] \<Rightarrow> f = REQUIREMENTS_FILE | _ \<Rightarrow> False)"

definition glob_sub_manifests :: "world \<Rightarrow> path list" where
  "glob_sub_manifests w = filter is_sub_manifest (remdups (map fst (fs w)))"

text \<open>\<open>[open(f, 'r').read() for f in found_files]\<close>.\<close>

fun read_all :: "world \<Rightarrow> path list \<Rightarrow> exn + string list" where
  "read_all w [] = Inr []"
| "read_all w (f # rest) =
     (case open_read w f of
        Inl e \<Rightarrow> Inl e
      | Inr t \<Rightarrow>
          (case read_all w rest of
             Inl e \<Rightarrow> Inl e
           | Inr ts \<Rightarrow> Inr (universal_newlines t # ts)))"

text \<open>
  \<open>sorted\<close> on paths compares their component lists, component by component. The root
  manifest is opened for writing, which creates or empties it, before the found files
  are read.
\<close>

definition source_and_combine_requirements :: "world \<Rightarrow> (exn + unit) \<times> world" where
  "source_and_combine_requirements w =
     (let w1 = print (''> Searching for 'requirements.txt' in subdirectories...'') w;
          found_files = sort (glob_sub_manifests w1);
          w2 = prints (map (\<lambda>f. ''>> Found: '' @ path_str f) found_files) w1
      in case open_write [REQUIREMENTS_FILE] w2 of
           Inl e \<Rightarrow> (Inl e, w2)
         | Inr w3 \<Rightarrow>
             (case read_all w3 found_files of
                Inl e \<Rightarrow> (Inl e, w3)
              | Inr contents \<Rightarrow>
                  (Inr (), write_text [REQUIREMENTS_FILE] (join ''\<newline>'' contents) w3)))"

section \<open>setup_virtual_environment\<close>

definition PYTHON_VENV_EXECUTABLE :: path where
  "PYTHON_VENV_EXECUTABLE = [VENV_DIR, ''bin'', ''python'']"

definition setup_virtual_environment :: "proc \<Rightarrow> world \<Rightarrow> (exn + path) \<times> world" where
  "setup_virtual_environment proc w =
     (if \<not> is_dir w [VENV_DIR] \<or> \<not> is_file w PYTHON_VENV_EXECUTABLE
      then (let w1 = print (''>> Creating virtual environment at '' @ apos @ VENV_DIR @ apos @ ''...'') w
            in case run_command proc [PYTHON_EXECUTABLE, ''-m'', ''venv'', VENV_DIR] False w1 of
                 (Inl e, w2) \<Rightarrow> (Inl e, w2)
               | (Inr r, w2) \<Rightarrow>
                   (Inr PYTHON_VENV_EXECUTABLE,
                    print ''>> Virtual environment created successfully.'' w2))
      else (Inr PYTHON_VENV_EXECUTABLE,
            print (''>> Virtual environment found at '' @ apos @ VENV_DIR @ apos @ ''.'') w))"

section \<open>pin_dependencies\<close>

text \<open>
  The try block of lines 94 to 99 catches FileNotFoundError only: any other error of
  \<open>open\<close> leaves the function.
\<close>

definition pin_dependencies :: "proc \<Rightarrow> path \<Rightarrow> world \<Rightarrow> (exn + unit) \<times> world" where
  "pin_dependencies proc venv_python_path w =
     (let w0 = print ''> Checking for unpinned dependencies in requirements.txt...'' w
      in case open_read w0 [REQUIREMENTS_FILE] of
           Inl (FileNotFoundError m) \<Rightarrow>
             (Inr (), print (''>> WARNING: '' @ apos @ REQUIREMENTS_FILE @ apos
                              @ '' not found. Skipping dependency pinning.'') w0)
         | Inl e \<Rightarrow> (Inl e, w0)
         | Inr content \<Rightarrow>
             (let original_lines = readlines content
              in if \<not> needs_pinning original_lines
                 then (Inr (), print ''> NOTE: All dependencies are already pinned.'' w0)
                 else (let w1 = print ''> Unpinned dependencies found. Generating pinned versions...'' w0
                       in case run_command proc [path_str venv_python_path, ''-m'', ''pip'', ''freeze''] True w1 of
                            (Inl e, w2) \<Rightarrow> (Inl e, w2)
                          | (Inr None, w2) \<Rightarrow> (Inl AttributeError, w2)
                          | (Inr (Some stdout), w2) \<Rightarrow>
                              (let installed = installed_packages stdout;
                                   (new_lines, printed) = pin_loop installed original_lines;
                                   w3 = prints printed w2
                               in case open_write [REQUIREMENTS_FILE] w3 of
                                    Inl e \<Rightarrow> (Inl e, w3)
                                  | Inr w4 \<Rightarrow>
                                      (Inr (),
                                       print (''> Successfully updated '' @ apos @ REQUIREMENTS_FILE @ apos
                                               @ '' with pinned versions.'')
                                         (write_text [REQUIREMENTS_FILE] (writelines new_lines) w4))))))"

section \<open>check_for_upgrades\<close>

fun requirements_loop :: "string set \<Rightarrow> string list \<Rightarrow> string set" where
  "requirements_loop acc [] = acc"
| "requirements_loop acc (line # rest) =
     (case PACKAGE_REGEX_match line of
        None \<Rightarrow> requirements_loop acc rest
      | Some g \<Rightarrow> requirements_loop (insert (package_key g) acc) rest)"

definition requirements_packages :: "string list \<Rightarrow> string set" where
  "requirements_packages lines = requirements_loop {} lines"

text \<open>
  The loop of lines 198 to 206. Unpacking \<open>line.split()\<close> into four names raises
  ValueError unless there are exactly four fields; the row is then skipped.
\<close>

fun targeted_upgrades :: "string set \<Rightarrow> string list \<Rightarrow> (string \<times> string \<times> string) list" where
  "targeted_upgrades reqs [] = []"
| "targeted_upgrades reqs (line # rest) =
     (case split_ws line of
        [package, current_v, latest_v, kind] \<Rightarrow>
          if lower package \<in> reqs
          then (package, current_v, latest_v) # targeted_upgrades reqs rest
          else targeted_upgrades reqs rest
      | _ \<Rightarrow> targeted_upgrades reqs rest)"

definition upgrade_prompt :: string where
  "upgrade_prompt = ''> Would you like to upgrade these packages? (y/n): ''"

text \<open>The lines printed by lines 212 to 214.\<close>

definition upgrade_listing :: "(string \<times> string \<times> string) list \<Rightarrow> string list" where
  "upgrade_listing targeted =
     ''> Upgrades available for the following packages:''
     # map (\<lambda>(pkg, current, latest). ''>>   - '' @ pkg @ '': '' @ current @ '' -> '' @ latest)
         targeted"

text \<open>
  Lines 212 to 228, reached when \<open>targeted_upgrades\<close> is not empty: the candidates are
  listed, the answer is read (\<open>'n'\<close> at the end of the input stream), and on \<open>y\<close> the
  packages are upgraded in one command.
\<close>

definition confirm_and_upgrade ::
    "proc \<Rightarrow> path \<Rightarrow> (string \<times> string \<times> string) list \<Rightarrow> world \<Rightarrow> (exn + unit) \<times> world" where
  "confirm_and_upgrade proc venv_python_path targeted w =
     (let w1 = prints (upgrade_listing targeted) w;
          (r, w2) = input upgrade_prompt w1
      in case (case r of
                 Inl e \<Rightarrow> if e = EOFError then Inr ''n'' else Inl e
               | Inr typed \<Rightarrow> Inr (strip (lower typed))) of
           Inl e \<Rightarrow> (Inl e, w2)
         | Inr answer \<Rightarrow>
             if answer = ''y''
             then (let packages_to_upgrade = map fst targeted
                   in case run_command proc
                             ([path_str venv_python_path, ''-m'', ''pip'', ''install'', ''--upgrade'']
                              @ packages_to_upgrade) False w2 of
                        (Inl e, w3) \<Rightarrow> (Inl e, w3)
                      | (Inr r', w3) \<Rightarrow> (Inr (), print ''> Packages upgraded successfully.'' w3))
             else (Inr (), print ''> No packages were upgraded.'' w2))"

text \<open>
  The try block of lines 164 to 169 catches FileNotFoundError only. \<open>run_command\<close> turns
  a CalledProcessError into \<open>sys_exit(1)\<close> itself, so the except clause of lines 185 to
  189 never runs.
\<close>

definition check_for_upgrades :: "proc \<Rightarrow> path \<Rightarrow> world \<Rightarrow> (exn + unit) \<times> world" where
  "check_for_upgrades proc venv_python_path w =
     (let w0 = print ''> Checking for package upgrades...'' w
      in case open_read w0 [REQUIREMENTS_FILE] of
           Inl (FileNotFoundError m) \<Rightarrow>
             (Inr (), print (''> WARNING: '' @ apos @ REQUIREMENTS_FILE @ apos
                              @ '' not found. Cannot check for targeted upgrades.'') w0)
         | Inl e \<Rightarrow> (Inl e, w0)
         | Inr content \<Rightarrow>
             (let requirements_packages = requirements_packages (readlines content)
              in case run_command proc [path_str venv_python_path, ''-m'', ''pip'', ''list'', ''--outdated''] True w0 of
                   (Inl e, w1) \<Rightarrow> (Inl e, w1)
                 | (Inr None, w1) \<Rightarrow> (Inl AttributeError, w1)
                 | (Inr (Some stdout), w1) \<Rightarrow>
                     (let outdated_lines = py_split ''\<newline>'' (strip stdout)
                      in if length outdated_lines \<le> 2
                         then (Inr (), print ''> All packages are up to date.'' w1)
                         else (let targeted = targeted_upgrades requirements_packages (drop 2 outdated_lines)
                               in if targeted = []
                                  then (Inr (), print ''> All packages listed in requirements.txt are up to date.'' w1)
                                  else confirm_and_upgrade proc venv_python_path targeted w1))))"

section \<open>main\<close>

definition not_generated :: string where
  "not_generated = ''The '' @ apos @ REQUIREMENTS_FILE @ apos
     @ '' file was not generated. Please create a requirements.txt file with your project's dependencies.''"

definition main :: "proc \<Rightarrow> world \<Rightarrow> (exn + unit) \<times> world" where
  "main proc w =
     (case source_and_combine_requirements w of
        (Inl e, w1) \<Rightarrow> (Inl e, w1)
      | (Inr u, w1) \<Rightarrow>
          if \<not> is_file w1 [REQUIREMENTS_FILE] then (Inl (FileNotFoundError not_generated), w1)
          else (case setup_virtual_environment proc w1 of
                  (Inl e, w2) \<Rightarrow> (Inl e, w2)
                | (Inr venv_python_path, w2) \<Rightarrow>
                    (let w3 = print (''Installing dependencies from '' @ apos @ REQUIREMENTS_FILE @ apos @ ''...'') w2
                     in case run_command proc [path_str venv_python_path, ''-m'', ''pip'', ''install'', ''-r'',
                                               REQUIREMENTS_FILE] False w3 of
                          (Inl e, w4) \<Rightarrow> (Inl e, w4)
                        | (Inr r, w4) \<Rightarrow>
                            (let w5 = print ''Dependencies installed.'' w4
                             in case pin_dependencies proc venv_python_path w5 of
                                  (Inl e, w6) \<Rightarrow> (Inl e, w6)
                                | (Inr u', w6) \<Rightarrow> check_for_upgrades proc venv_python_path w6))))"

section \<open>Vocabulary of the properties\<close>

text \<open>A command failed: its executable is missing, or its return code is not zero.\<close>

definition failed :: "proc_result \<Rightarrow> bool" where
  "failed r = (case r of CommandNotFound \<Rightarrow> True | Completed returncode so se \<Rightarrow> returncode \<noteq> 0)"

text \<open>No command recorded so far has failed.\<close>

definition all_succeeded :: "world \<Rightarrow> bool" where
  "all_succeeded w = list_all (\<lambda>(command, r). \<not> failed r) (calls w)"

text \<open>The sub-manifests of a project: the entries \<open>*/requirements.txt\<close>, as a set of paths.\<close>

definition sub_manifests :: "world \<Rightarrow> path set" where
  "sub_manifests w = {p \<in> dom (map_of (fs w)). is_sub_manifest p}"

section \<open>Sample runs\<close>

text \<open>
  Worlds and external commands for the concrete instances below: a project with no
  files; a project with three sub-manifests; a project where a directory stands in
  the place of the root manifest; a project where a directory carries the name of a
  sub-manifest; a project whose manifest names flask; a project whose manifest
  names requests with a comment and Flask with extras; and package managers that succeed
  quietly, are not installed, fail on install, or report Flask as outdated and two
  installed packages.
\<close>

definition empty_project :: world where
  "empty_project = \<lparr>fs = [], out = [], stdin = [], calls = []\<rparr>"

definition quiet_success :: proc where
  "quiet_success command files = (Completed 0 [] [], files)"

definition nothing_installed :: proc where
  "nothing_installed command files = (CommandNotFound, files)"

definition install_fails :: proc where
  "install_fails command files =
     (if command = [''venv/bin/python'', ''-m'', ''pip'', ''install'', ''-r'', ''requirements.txt'']
      then (Completed 1 [] ''ERROR: No matching distribution found'', files)
      else (Completed 0 [] [], files))"


definition folder_as_root_manifest :: world where
  "folder_as_root_manifest =
     \<lparr>fs = [([''requirements.txt''], Dir)], out = [], stdin = [], calls = []\<rparr>"


definition sample_pip :: proc where
  "sample_pip command files =
     (if command = [''venv/bin/python'', ''-m'', ''pip'', ''list'', ''--outdated'']
      then (Completed 0
              ''Package Version Latest Type\<newline>------- ------- ------ -----\<newline>Flask   2.0.1   2.3.2  wheel\<newline>''
              [], files)
      else if command = [''venv/bin/python'', ''-m'', ''pip'', ''freeze'']
      then (Completed 0 ''Flask==2.0.1\<newline>requests==2.31.0\<newline>'' [], files)
      else (Completed 0 [] [], files))"

definition flask_project :: "string list \<Rightarrow> world" where
  "flask_project typed =
     \<lparr>fs = [([''requirements.txt''], File ''flask\<newline>'')], out = [], stdin = typed, calls = []\<rparr>"

definition extras_project :: "string list \<Rightarrow> world" where
  "extras_project typed =
     \<lparr>fs = [([''requirements.txt''],
             File ''  requests  # pinned above\<newline>Flask[async]>=2.0\<newline>'')],
      out = [], stdin = typed, calls = []\<rparr>"

section \<open>The greedy match of the pattern\<close>

text \<open>
  The classes of neighbouring parts of the pattern are disjoint, so its first alternative
  is the greedy one: all leading whitespace, then the longest run of name characters (at
  least one, or there is no match at all), then the bracketed extras when an opening
  bracket, a non-empty run of extras characters and a closing bracket follow. Evaluation
  uses this form.
\<close>

definition extras_group :: "string \<Rightarrow> string" where
  "extras_group s =
     (case s of
        [] \<Rightarrow> []
      | c # cs \<Rightarrow>
          if c = CHR ''[''
          then (let ex = takeWhile extras_char cs; rest = dropWhile extras_char cs
                in if ex \<noteq> [] \<and> startswith rest '']'' then ''['' @ ex @ '']'' else [])
          else [])"

lemma star_alts_shape:
  "\<exists>rest. star_alts P s = (takeWhile P s, dropWhile P s) # rest
     \<and> (\<forall>(x, r) \<in> set rest. \<exists>c cs. r = c # cs \<and> P c)"
proof (induction s)
  case Nil
  then show ?case by simp
next
  case (Cons c cs)
  then obtain rest where r: "star_alts P cs = (takeWhile P cs, dropWhile P cs) # rest"
    "\<forall>(x, r) \<in> set rest. \<exists>c cs. r = c # cs \<and> P c"
    by blast
  show ?case
  proof (cases "P c")
    case True
    with r show ?thesis by (auto simp: case_prod_beta)
  next
    case False
    then show ?thesis by simp
  qed
qed

lemma alts_StarC_shape:
  "\<exists>rest. alts (StarC P) s = (takeWhile P s, None, dropWhile P s) # rest
     \<and> (\<forall>(x, g, r) \<in> set rest. \<exists>c cs. r = c # cs \<and> P c)"
proof -
  from star_alts_shape [of P s] obtain rest where
    "star_alts P s = (takeWhile P s, dropWhile P s) # rest"
    "\<forall>(x, r) \<in> set rest. \<exists>c cs. r = c # cs \<and> P c"
    by blast
  then show ?thesis by (auto simp: case_prod_beta)
qed

lemma alts_PlusC_none: "takeWhile P s = [] \<Longrightarrow> alts (PlusC P) s = []"
  by (cases s) (auto split: if_splits)

lemma alts_PlusC_shape:
  assumes "takeWhile P s \<noteq> []"
  shows "\<exists>rest. alts (PlusC P) s = (takeWhile P s, None, dropWhile P s) # rest
     \<and> (\<forall>(x, g, r) \<in> set rest. \<exists>c cs. r = c # cs \<and> P c)"
proof -
  from assms obtain c cs where s: "s = c # cs" "P c"
    by (cases s) (auto split: if_splits)
  from star_alts_shape [of P cs] obtain rest where
    "star_alts P cs = (takeWhile P cs, dropWhile P cs) # rest"
    "\<forall>(x, r) \<in> set rest. \<exists>c cs. r = c # cs \<and> P c"
    by blast
  with s show ?thesis by (auto simp: case_prod_beta)
qed

lemma concat_map_none: "(\<And>x. x \<in> set xs \<Longrightarrow> f x = []) \<Longrightarrow> concat (map f xs) = []"
  by (induction xs) auto

lemma extras_char_not_close: "extras_char c \<Longrightarrow> c \<noteq> CHR '']''"
  by (auto simp: extras_char_def name_char_def ord_def Let_def)

lemma alts_close:
  "map (\<lambda>(y, g', r'). (x @ y, (case g' of None \<Rightarrow> g | Some t \<Rightarrow> Some t), r'))
     (alts (Cls (\<lambda>c. c = CHR '']'')) r)
   = (if startswith r '']'' then [(x @ '']'', g, tl r)] else [])"
  by (cases r) (auto simp: startswith_def)

lemma alts_EXTRAS:
  "alts EXTRAS s =
     (if extras_group s = [] then []
      else [(extras_group s, None, drop (length (extras_group s)) s)])"
proof (cases s)
  case Nil
  then show ?thesis by (simp add: EXTRAS_def extras_group_def)
next
  case (Cons c cs)
  show ?thesis
  proof (cases "c = CHR ''[''")
    case False
    with Cons show ?thesis by (simp add: EXTRAS_def extras_group_def)
  next
    case True
    let ?ex = "takeWhile extras_char cs" and ?r = "dropWhile extras_char cs"
    let ?close = "Cls (\<lambda>c. c = CHR '']'')"
    let ?f = "\<lambda>(x, g, r). map (\<lambda>(y, g', r'). (x @ y, (case g' of None \<Rightarrow> g | Some t \<Rightarrow> Some t), r'))
                      (alts ?close r)"
    have inner: "alts (Seq (PlusC extras_char) ?close) cs =
        (if ?ex \<noteq> [] \<and> startswith ?r '']'' then [(?ex @ '']'', None, tl ?r)] else [])"
    proof (cases "?ex = []")
      case True
      then have "alts (PlusC extras_char) cs = []" by (rule alts_PlusC_none)
      with True show ?thesis by (simp del: alts.simps(3))
    next
      case False
      from alts_PlusC_shape [OF False] obtain rest where
        p: "alts (PlusC extras_char) cs = (?ex, None, ?r) # rest"
        and others: "\<forall>(x, g, r) \<in> set rest. \<exists>c cs. r = c # cs \<and> extras_char c"
        by blast
      have "\<And>a. a \<in> set rest \<Longrightarrow> ?f a = []"
        using others extras_char_not_close by fastforce
      then have "concat (map ?f rest) = []" by (rule concat_map_none)
      then have "alts (Seq (PlusC extras_char) ?close) cs = ?f (?ex, None, ?r)"
        by (simp add: p del: alts.simps(3))
      also have "\<dots> = (if startswith ?r '']'' then [(?ex @ '']'', None, tl ?r)] else [])"
        by (simp only: prod.case alts_close)
      finally show ?thesis using False by simp
    qed
    have len: "?ex \<noteq> [] \<and> startswith ?r '']'' \<Longrightarrow>
        drop (Suc (length ?ex)) cs = tl ?r"
      by (metis append_take_drop_id drop_Suc length_takeWhile_le takeWhile_dropWhile_id
          append_eq_conv_conj tl_drop)
    show ?thesis
      using Cons True inner len
      by (auto simp: EXTRAS_def extras_group_def Let_def)
  qed
qed

lemma name_char_not_space: "name_char c \<Longrightarrow> \<not> isspace c"
  by (auto simp: name_char_def isspace_def ord_def Let_def)

lemma alts_name_extras_none:
  "takeWhile name_char s = [] \<Longrightarrow> alts (Seq (PlusC name_char) (Opt EXTRAS)) s = []"
  using alts_PlusC_none [of name_char s] by (simp del: alts.simps(3))

lemma alts_name_extras_first:
  assumes "takeWhile name_char s \<noteq> []"
  shows "\<exists>r3 rest. alts (Seq (PlusC name_char) (Opt EXTRAS)) s =
           (takeWhile name_char s @ extras_group (dropWhile name_char s), None, r3) # rest"
proof -
  from alts_PlusC_shape [OF assms] obtain rest where
    p: "alts (PlusC name_char) s = (takeWhile name_char s, None, dropWhile name_char s) # rest"
    by blast
  show ?thesis
    by (cases "extras_group (dropWhile name_char s) = []")
      (simp_all add: p alts_EXTRAS del: alts.simps(3))
qed

lemma alts_group_none:
  assumes "takeWhile name_char s = []"
  shows "alts (Seq (Grp (Seq (PlusC name_char) (Opt EXTRAS))) (StarC isspace)) s = []"
proof -
  let ?G = "Seq (PlusC name_char) (Opt EXTRAS)"
  have "alts (Seq (Grp ?G) (StarC isspace)) s =
      concat (map (\<lambda>(x, g, r).
                    map (\<lambda>(y, g', r'). (x @ y, (case g' of None \<Rightarrow> g | Some t \<Rightarrow> Some t), r'))
                      (alts (StarC isspace) r))
               (map (\<lambda>(x, g, r). (x, Some x, r)) (alts ?G s)))"
    by (simp only: alts.simps)
  then show ?thesis
    by (simp add: alts_name_extras_none [OF assms] del: alts.simps)
qed

lemma alts_group_first:
  assumes "takeWhile name_char s \<noteq> []"
  shows "\<exists>whole r4 rest.
           alts (Seq (Grp (Seq (PlusC name_char) (Opt EXTRAS))) (StarC isspace)) s =
             (whole, Some (takeWhile name_char s @ extras_group (dropWhile name_char s)), r4) # rest"
proof -
  let ?G = "Seq (PlusC name_char) (Opt EXTRAS)"
  from alts_name_extras_first [OF assms] obtain r3 rest where
    g: "alts ?G s = (takeWhile name_char s @ extras_group (dropWhile name_char s), None, r3) # rest"
    by blast
  from alts_StarC_shape [of isspace r3] obtain rest' where
    w: "alts (StarC isspace) r3 = (takeWhile isspace r3, None, dropWhile isspace r3) # rest'"
    by blast
  have "alts (Seq (Grp ?G) (StarC isspace)) s =
      concat (map (\<lambda>(x, g, r).
                    map (\<lambda>(y, g', r'). (x @ y, (case g' of None \<Rightarrow> g | Some t \<Rightarrow> Some t), r'))
                      (alts (StarC isspace) r))
               (map (\<lambda>(x, g, r). (x, Some x, r)) (alts ?G s)))"
    by (simp only: alts.simps)
  then show ?thesis
    by (simp add: g w del: alts.simps)
qed

lemma PACKAGE_REGEX_match_greedy [code]:
  "PACKAGE_REGEX_match line =
     (let rest = dropWhile isspace line;
          name = takeWhile name_char rest
      in if name = [] then None
         else Some (name @ extras_group (dropWhile name_char rest)))"
proof -
  let ?B = "Seq (Grp (Seq (PlusC name_char) (Opt EXTRAS))) (StarC isspace)"
  let ?r1 = "dropWhile isspace line"
  let ?F = "\<lambda>(x, g, r). map (\<lambda>(y, g', r'). (x @ y, (case g' of None \<Rightarrow> g | Some t \<Rightarrow> Some t), r'))
                      (alts ?B r)"
  from alts_StarC_shape [of isspace line] obtain rest where
    w: "alts (StarC isspace) line = (takeWhile isspace line, None, ?r1) # rest"
    and others: "\<forall>(x, g, r) \<in> set rest. \<exists>c cs. r = c # cs \<and> isspace c"
    by blast
  have "\<And>a. a \<in> set rest \<Longrightarrow> ?F a = []"
  proof -
    fix a
    assume "a \<in> set rest"
    with others obtain x g c cs where a: "a = (x, g, c # cs)" "isspace c"
      by (cases a) auto
    then have "takeWhile name_char (c # cs) = []"
      using name_char_not_space by auto
    then have "alts ?B (c # cs) = []" by (rule alts_group_none)
    with a show "?F a = []" by simp
  qed
  then have "concat (map ?F rest) = []" by (rule concat_map_none)
  moreover have "alts PACKAGE_REGEX line = concat (map ?F (alts (StarC isspace) line))"
    by (simp only: PACKAGE_REGEX_def alts.simps)
  ultimately have a: "alts PACKAGE_REGEX line = ?F (takeWhile isspace line, None, ?r1)"
    by (simp add: w del: alts.simps)
  show ?thesis
  proof (cases "takeWhile name_char ?r1 = []")
    case True
    then have "alts ?B ?r1 = []" by (rule alts_group_none)
    with a True show ?thesis
      by (simp add: PACKAGE_REGEX_match_def re_match_def del: alts.simps)
  next
    case False
    from alts_group_first [OF False] obtain whole r4 rest' where
      "alts ?B ?r1 = (whole, Some (takeWhile name_char ?r1 @ extras_group (dropWhile name_char ?r1)), r4) # rest'"
      by blast
    with a False show ?thesis
      by (simp add: PACKAGE_REGEX_match_def re_match_def Let_def del: alts.simps)
  qed
qed

section \<open>Properties of the pinning rewrite\<close>

lemma name_char_not_hash: "name_char c \<Longrightarrow> c \<noteq> CHR ''#''"
  by (auto simp: name_char_def ord_def Let_def)

lemma strip_Cons_nonspace:
  "\<not> isspace c \<Longrightarrow> strip (c # cs) = c # rev (dropWhile isspace (rev cs))"
  by (simp add: strip_def dropWhile_append)

lemma strip_dropWhile: "strip (dropWhile isspace s) = strip s"
  by (simp add: strip_def)

lemma match_SomeD:
  assumes "PACKAGE_REGEX_match line = Some g"
  obtains c cs where "dropWhile isspace line = c # cs" "name_char c"
proof -
  from assms have "takeWhile name_char (dropWhile isspace line) \<noteq> []"
    by (auto simp: PACKAGE_REGEX_match_greedy Let_def split: if_splits)
  then obtain c cs where "dropWhile isspace line = c # cs" "name_char c"
    by (cases "dropWhile isspace line") (auto split: if_splits)
  then show ?thesis by (rule that)
qed

lemma match_not_blank_comment:
  assumes "PACKAGE_REGEX_match line = Some g"
  shows "strip line \<noteq> []" and "\<not> startswith (strip line) ''#''"
proof -
  from assms obtain c cs where d: "dropWhile isspace line = c # cs" and n: "name_char c"
    by (rule match_SomeD)
  have "strip line = strip (c # cs)" using d strip_dropWhile [of line] by simp
  also have "\<dots> = c # rev (dropWhile isspace (rev cs))"
    using n by (simp add: strip_Cons_nonspace name_char_not_space)
  finally have s: "strip line = c # rev (dropWhile isspace (rev cs))" .
  show "strip line \<noteq> []" using s by simp
  show "\<not> startswith (strip line) ''#''"
    using s name_char_not_hash [OF n] by (simp add: startswith_def)
qed

lemma pin_loop_fst: "fst (pin_loop installed lines) = map (pin_line installed) lines"
  by (induction lines) (auto simp: pin_line_def split: prod.splits)

lemma pin_lines_map: "pin_lines installed lines = map (pin_line installed) lines"
  by (simp add: pin_lines_def pin_loop_fst)

lemma pin_line_not_unpinned: "\<not> is_unpinned line \<Longrightarrow> pin_line installed line = line"
  by (auto simp: pin_line_def pin_step_def is_unpinned_def Let_def split: option.splits)

lemma blank_no_match: "strip line = [] \<Longrightarrow> PACKAGE_REGEX_match line = None"
  using match_not_blank_comment(1) [of line] by (cases "PACKAGE_REGEX_match line") auto

lemma comment_no_match: "startswith (strip line) ''#'' \<Longrightarrow> PACKAGE_REGEX_match line = None"
  using match_not_blank_comment(2) [of line] by (cases "PACKAGE_REGEX_match line") auto

lemma split_first_char:
  "split_first [c] s =
     (if c \<in> set s
      then Some (takeWhile (\<lambda>x. x \<noteq> c) s, tl (dropWhile (\<lambda>x. x \<noteq> c) s))
      else None)"
  by (induction s) auto

lemma str_in_char: "str_in [c] s = (c \<in> set s)"
  by (induction s) auto

lemma takeWhile_neq_all: "c \<notin> set s \<Longrightarrow> takeWhile (\<lambda>x. x \<noteq> c) s = s"
  by (induction s) auto

lemma hd_py_split_char: "hd (py_split [c] s) = takeWhile (\<lambda>x. x \<noteq> c) s"
proof (cases "c \<in> set s")
  case True
  then show ?thesis
    by (subst py_split.simps) (simp add: split_first_char)
next
  case False
  then show ?thesis
    by (subst py_split.simps) (simp add: split_first_char takeWhile_neq_all)
qed

lemma max1_after_hash:
  assumes "CHR ''#'' \<notin> set a"
  shows "py_split_max1 ''#'' (a @ ''#'' @ b) ! 1 = b"
proof -
  have "takeWhile (\<lambda>x. x \<noteq> CHR ''#'') (a @ CHR ''#'' # b) = a"
    using assms by (induction a) auto
  moreover have "dropWhile (\<lambda>x. x \<noteq> CHR ''#'') (a @ CHR ''#'' # b) = CHR ''#'' # b"
    using assms by (induction a) auto
  ultimately show ?thesis
    by (simp add: py_split_max1_def split_first_char)
qed

lemma pin_line_found:
  assumes "PACKAGE_REGEX_match line = Some g"
    and "\<not> str_in ''=='' line"
    and "installed (package_key g) = Some pv"
  shows "pin_line installed line =
           (if str_in ''#'' line
            then pv @ ''  # '' @ strip (py_split_max1 ''#'' line ! 1) @ ''\<newline>''
            else pv @ ''\<newline>'')"
  using assms match_not_blank_comment [OF assms(1)]
  by (simp add: pin_line_def pin_step_def Let_def)

lemma lower_name_char: "name_char c \<Longrightarrow> lower_char c \<noteq> CHR ''[''"
proof
  assume n: "name_char c" and e: "lower_char c = CHR ''[''"
  show False
  proof (cases "65 \<le> ord c \<and> ord c \<le> 90")
    case True
    with e have "char_of (ord c + 32) = CHR ''[''"
      by (simp add: lower_char_def Let_def)
    then have "(of_char (char_of (ord c + 32) :: char) :: nat) = of_char (CHR ''['')"
      by simp
    then have "(ord c + 32) mod 256 = 91"
      by (simp add: of_char_of)
    with True show False by simp
  next
    case False
    with n have "lower_char c = c"
      by (auto simp: lower_char_def name_char_def Let_def ord_def)
    with e n show False
      by (auto simp: name_char_def ord_def Let_def)
  qed
qed

lemma lower_extras_group:
  "lower (extras_group s) = [] \<or> hd (lower (extras_group s)) = CHR ''[''"
  by (auto simp: extras_group_def lower_def Let_def lower_char_def ord_def split: list.splits)

lemma package_key_match:
  assumes "PACKAGE_REGEX_match line = Some g"
  shows "package_key g = lower (takeWhile name_char (dropWhile isspace line))"
proof -
  define name where "name = takeWhile name_char (dropWhile isspace line)"
  define eg where "eg = extras_group (dropWhile name_char (dropWhile isspace line))"
  from assms have g: "g = name @ eg"
    by (auto simp: PACKAGE_REGEX_match_greedy Let_def name_def eg_def split: if_splits)
  have "\<forall>c \<in> set name. name_char c"
    unfolding name_def by (auto dest: set_takeWhileD)
  then have a: "\<forall>x \<in> set (lower name). x \<noteq> CHR ''[''"
    by (auto simp: lower_def lower_name_char)
  have b: "lower eg = [] \<or> hd (lower eg) = CHR ''[''"
    unfolding eg_def by (rule lower_extras_group)
  have "takeWhile (\<lambda>x. x \<noteq> CHR ''['') (lower name @ lower eg) = lower name"
    using a b by (cases "lower eg") (auto simp: takeWhile_append2 takeWhile_eq_all_conv)
  then show ?thesis
    by (simp add: package_key_def g hd_py_split_char lower_def name_def)
qed

text \<open>
  Claim C2. For every list of manifest lines and every installed-package map, the
  pinning rewrite returns as many lines as it was given, and every line that is not an
  unpinned dependency specifier (a blank line, a full-line comment, a line that contains
  \<open>==\<close>, a line the package-name pattern does not match) stands unchanged at its
  position in the output.
\<close>

theorem pin_preserves_other_lines:
  "length (pin_lines installed lines) = length lines \<and>
   (\<forall>i < length lines.
      strip (lines ! i) = [] \<or> startswith (strip (lines ! i)) ''#''
        \<or> str_in ''=='' (lines ! i) \<or> PACKAGE_REGEX_match (lines ! i) = None
      \<longrightarrow> pin_lines installed lines ! i = lines ! i) \<and>
   (\<forall>i < length lines. \<not> is_unpinned (lines ! i) \<longrightarrow> pin_lines installed lines ! i = lines ! i)"
proof (intro conjI allI impI)
  show "length (pin_lines installed lines) = length lines"
    by (simp add: pin_lines_map)
next
  fix i
  assume i: "i < length lines"
    and c: "strip (lines ! i) = [] \<or> startswith (strip (lines ! i)) ''#''
        \<or> str_in ''=='' (lines ! i) \<or> PACKAGE_REGEX_match (lines ! i) = None"
  from c have "\<not> is_unpinned (lines ! i)"
    using blank_no_match comment_no_match by (auto simp: is_unpinned_def)
  then show "pin_lines installed lines ! i = lines ! i"
    using i by (simp add: pin_lines_map pin_line_not_unpinned)
next
  fix i
  assume "i < length lines" and "\<not> is_unpinned (lines ! i)"
  then show "pin_lines installed lines ! i = lines ! i"
    by (simp add: pin_lines_map pin_line_not_unpinned)
qed

theorem pin_preserves_other_lines_witness:
  "length (pin_lines [''requests'' \<mapsto> ''requests==2.31.0'']
             [''# web\<newline>'', ''\<newline>'', ''flask==2.0.1\<newline>'', ''requests\<newline>'']) = 4
   \<and> startswith (strip ''# web\<newline>'') ''#''
   \<and> pin_lines [''requests'' \<mapsto> ''requests==2.31.0'']
         [''# web\<newline>'', ''\<newline>'', ''flask==2.0.1\<newline>'', ''requests\<newline>''] ! 0 = ''# web\<newline>''
   \<and> \<not> is_unpinned ''flask==2.0.1\<newline>''
   \<and> pin_lines [''requests'' \<mapsto> ''requests==2.31.0'']
         [''# web\<newline>'', ''\<newline>'', ''flask==2.0.1\<newline>'', ''requests\<newline>''] ! 2 = ''flask==2.0.1\<newline>''"
proof -
  let ?m = "[''requests'' \<mapsto> ''requests==2.31.0'']"
  let ?ls = "[''# web\<newline>'', ''\<newline>'', ''flask==2.0.1\<newline>'', ''requests\<newline>'']"
  note t = pin_preserves_other_lines [of ?m ?ls]
  have c: "startswith (strip ''# web\<newline>'') ''#''" by code_simp
  have p: "\<not> is_unpinned ''flask==2.0.1\<newline>''" by code_simp
  from t have len: "length (pin_lines ?m ?ls) = 4" by simp
  from t have a: "\<And>i. i < length ?ls \<Longrightarrow>
      strip (?ls ! i) = [] \<or> startswith (strip (?ls ! i)) ''#''
        \<or> str_in ''=='' (?ls ! i) \<or> PACKAGE_REGEX_match (?ls ! i) = None
      \<Longrightarrow> pin_lines ?m ?ls ! i = ?ls ! i"
    by blast
  from t have b: "\<And>i. i < length ?ls \<Longrightarrow> \<not> is_unpinned (?ls ! i)
      \<Longrightarrow> pin_lines ?m ?ls ! i = ?ls ! i"
    by blast
  have r0: "pin_lines ?m ?ls ! 0 = ''# web\<newline>''" using a [of 0] c by simp
  have r2: "pin_lines ?m ?ls ! 2 = ''flask==2.0.1\<newline>''" using b [of 2] p by simp
  from len c r0 p r2 show ?thesis by blast
qed

text \<open>
  Claim C4. An unpinned line whose key (the matched name, lowercased, without extras) is
  not in the installed-package map stands unchanged in the output.
\<close>

theorem pin_absent_unchanged:
  assumes "i < length lines"
    and "PACKAGE_REGEX_match (lines ! i) = Some g"
    and "\<not> str_in ''=='' (lines ! i)"
    and "installed (package_key g) = None"
  shows "pin_lines installed lines ! i = lines ! i"
  using assms by (simp add: pin_lines_map pin_line_def pin_step_def Let_def)

theorem pin_absent_unchanged_witness:
  "PACKAGE_REGEX_match ''numpy>=1.20\<newline>'' = Some ''numpy''
   \<and> \<not> str_in ''=='' ''numpy>=1.20\<newline>''
   \<and> [''requests'' \<mapsto> ''requests==2.31.0''] (package_key ''numpy'') = None
   \<and> pin_lines [''requests'' \<mapsto> ''requests==2.31.0''] [''numpy>=1.20\<newline>''] ! 0 = ''numpy>=1.20\<newline>''"
proof -
  let ?m = "[''requests'' \<mapsto> ''requests==2.31.0'']"
  let ?l = "''numpy>=1.20\<newline>''"
  have h1: "(0::nat) < length [?l]" by simp
  have h2: "PACKAGE_REGEX_match ([?l] ! 0) = Some ''numpy''" by code_simp
  have h3: "\<not> str_in ''=='' ([?l] ! 0)" by code_simp
  have h4: "?m (package_key ''numpy'') = None" by code_simp
  from pin_absent_unchanged [where i = 0 and lines = "[?l]" and installed = ?m
      and g = "''numpy''", OF h1 h2 h3 h4] h2 h3 h4
  show ?thesis by simp
qed

text \<open>
  Claim C10. A line that contains \<open>==\<close> anywhere, also only in an inline comment, counts
  as pinned and is left unchanged: \<open>requests  # pin == later\<close> is never rewritten and
  never asks for pinning, although its specifier \<open>requests\<close> has no version.
\<close>

theorem pinned_marker_anywhere:
  "(\<forall>i < length lines. str_in ''=='' (lines ! i) \<longrightarrow>
       \<not> is_unpinned (lines ! i) \<and> pin_lines installed lines ! i = lines ! i)
   \<and> PACKAGE_REGEX_match ''requests  # pin == later'' = Some ''requests''
   \<and> \<not> str_in ''=='' ''requests''
   \<and> pin_lines installed [''requests  # pin == later''] = [''requests  # pin == later'']
   \<and> \<not> needs_pinning [''requests  # pin == later'']"
proof (intro conjI allI impI)
  fix i
  assume "i < length lines" and "str_in ''=='' (lines ! i)"
  then show "\<not> is_unpinned (lines ! i)" "pin_lines installed lines ! i = lines ! i"
    by (simp_all add: is_unpinned_def pin_lines_map pin_line_not_unpinned)
next
  show "PACKAGE_REGEX_match ''requests  # pin == later'' = Some ''requests''"
    by code_simp
  show "\<not> str_in ''=='' ''requests''"
    by code_simp
  have e: "str_in ''=='' ''requests  # pin == later''" by code_simp
  then show "pin_lines installed [''requests  # pin == later''] = [''requests  # pin == later'']"
    by (simp add: pin_lines_map pin_line_not_unpinned is_unpinned_def)
  from e show "\<not> needs_pinning [''requests  # pin == later'']"
    by (simp add: is_unpinned_def)
qed


theorem pinned_marker_anywhere_witness:
  "str_in ''=='' ''requests  # pin == later\<newline>''
   \<and> \<not> is_unpinned ''requests  # pin == later\<newline>''
   \<and> pin_lines [''requests'' \<mapsto> ''requests==2.31.0''] [''requests  # pin == later\<newline>''] ! 0
       = ''requests  # pin == later\<newline>''"
proof -
  let ?m = "[''requests'' \<mapsto> ''requests==2.31.0'']"
  let ?l = "''requests  # pin == later\<newline>''"
  have h: "str_in ''=='' ([?l] ! 0)" by code_simp
  from pinned_marker_anywhere [of "[?l]" ?m]
  have "\<And>i. i < length [?l] \<Longrightarrow> str_in ''=='' ([?l] ! i) \<Longrightarrow>
       \<not> is_unpinned ([?l] ! i) \<and> pin_lines ?m [?l] ! i = [?l] ! i"
    by blast
  from this [of 0] h show ?thesis by simp
qed

section \<open>Idempotence of the pinning rewrite\<close>

subsection \<open>Lines of a text\<close>

lemma universal_newlines_no_cr: "CHR 0x0D \<notin> set (universal_newlines s)"
  by (induction s rule: universal_newlines.induct) auto

lemma universal_newlines_id: "CHR 0x0D \<notin> set s \<Longrightarrow> universal_newlines s = s"
  by (induction s rule: universal_newlines.induct) auto

fun lines_wf :: "string list \<Rightarrow> bool" where
  "lines_wf [] = True"
| "lines_wf [l] = (l \<noteq> [] \<and> CHR 0x0A \<notin> set (butlast l))"
| "lines_wf (l # l' # ls) =
     (l \<noteq> [] \<and> CHR 0x0A \<notin> set (butlast l) \<and> last l = CHR 0x0A \<and> lines_wf (l' # ls))"

lemma lines_wf_splitlines: "lines_wf (splitlines s)"
proof (induction s)
  case Nil
  then show ?case by simp
next
  case (Cons c cs)
  then show ?case
    by (cases "splitlines cs"; cases "tl (splitlines cs)") (auto split: list.splits)
qed

lemma splitlines_line_break:
  "CHR 0x0A \<notin> set body \<Longrightarrow>
     splitlines (body @ CHR 0x0A # rest) = (body @ [CHR 0x0A]) # splitlines rest"
  by (induction body) auto

lemma splitlines_no_break: "l \<noteq> [] \<Longrightarrow> CHR 0x0A \<notin> set l \<Longrightarrow> splitlines l = [l]"
proof (induction l)
  case Nil
  then show ?case by simp
next
  case (Cons c cs)
  then show ?case by (cases cs) auto
qed

lemma splitlines_single:
  assumes "l \<noteq> []" and "CHR 0x0A \<notin> set (butlast l)"
  shows "splitlines l = [l]"
proof (cases "last l = CHR 0x0A")
  case True
  with assms(1) have "l = butlast l @ [CHR 0x0A]"
    by (metis append_butlast_last_id)
  moreover have "splitlines (butlast l @ CHR 0x0A # []) = (butlast l @ [CHR 0x0A]) # splitlines []"
    using assms(2) by (rule splitlines_line_break)
  ultimately show ?thesis by simp
next
  case False
  with assms have "CHR 0x0A \<notin> set l"
    by (metis append_butlast_last_id in_set_conv_decomp_last last_snoc rotate1.simps(2) set_ConsD set_rotate1)
  with assms(1) show ?thesis by (rule splitlines_no_break)
qed

lemma splitlines_concat: "lines_wf ls \<Longrightarrow> splitlines (concat ls) = ls"
proof (induction ls rule: lines_wf.induct)
  case 1
  then show ?case by simp
next
  case (2 l)
  then show ?case by (simp add: splitlines_single)
next
  case (3 l l' ls)
  then have l: "butlast l @ [CHR 0x0A] = l"
    by (metis append_butlast_last_id lines_wf.simps(3))
  have c: "concat (l # l' # ls) = butlast l @ CHR 0x0A # concat (l' # ls)"
    by (subst l [symmetric]) simp
  have "splitlines (butlast l @ CHR 0x0A # concat (l' # ls))
          = (butlast l @ [CHR 0x0A]) # splitlines (concat (l' # ls))"
    using 3 by (intro splitlines_line_break) simp
  also have "\<dots> = l # l' # ls"
    using 3 by (simp only: l) simp
  finally show ?case by (simp only: c)
qed

subsection \<open>What the installed-package map holds\<close>

lemma str_in_append: "str_in sub s \<Longrightarrow> str_in sub (s @ t)"
proof (induction s)
  case Nil
  then show ?case by (cases t) simp_all
next
  case (Cons c cs)
  then show ?case
    using prefix_prefix [of sub "c # cs" t] by auto
qed

lemma set_tl_dropWhile: "set (tl (dropWhile P s)) \<subseteq> set s"
  by (induction s) auto

lemma set_strip: "set (strip s) \<subseteq> set s"
proof -
  have "set (strip s) \<subseteq> set (rev (dropWhile isspace s))"
    unfolding strip_def using set_dropWhileD by fastforce
  also have "\<dots> \<subseteq> set s"
    using set_dropWhileD by fastforce
  finally show ?thesis .
qed

lemma py_split_char_pieces:
  "x \<in> set (py_split [c] s) \<Longrightarrow> c \<notin> set x \<and> set x \<subseteq> set s"
proof (induction "[c]" s arbitrary: x rule: py_split.induct)
  case (1 s)
  show ?case
  proof (cases "c \<in> set s")
    case False
    with 1(2) show ?thesis
      by (subst (asm) py_split.simps) (simp add: split_first_char)
  next
    case True
    let ?a = "takeWhile (\<lambda>x. x \<noteq> c) s" and ?b = "tl (dropWhile (\<lambda>x. x \<noteq> c) s)"
    have sf: "split_first [c] s = Some (?a, ?b)"
      using True by (simp add: split_first_char)
    from 1(2) have "x = ?a \<or> x \<in> set (py_split [c] ?b)"
      by (subst (asm) py_split.simps) (simp add: sf)
    then show ?thesis
    proof
      assume "x = ?a"
      then show ?thesis
        by (auto dest: set_takeWhileD)
    next
      assume "x \<in> set (py_split [c] ?b)"
      then have "c \<notin> set x \<and> set x \<subseteq> set ?b"
        using 1(1) [OF _ sf refl] by simp
      moreover have "set ?b \<subseteq> set s"
        by (rule set_tl_dropWhile)
      ultimately show ?thesis by blast
    qed
  qed
qed

definition value_ok :: "string \<Rightarrow> bool" where
  "value_ok v = (str_in ''=='' v \<and> CHR 0x0A \<notin> set v \<and> CHR 0x0D \<notin> set v)"

lemma installed_loop_values:
  assumes "\<And>k v. m k = Some v \<Longrightarrow> P v"
    and "\<And>line. line \<in> set lines \<Longrightarrow> str_in ''=='' (strip line) \<Longrightarrow> P (strip line)"
    and "installed_loop m lines k = Some v"
  shows "P v"
  using assms
proof (induction lines arbitrary: m)
  case Nil
  then show ?case by simp
next
  case (Cons line rest)
  let ?m' = "m(lower (hd (py_split ''=='' (strip line))) \<mapsto> strip line)"
  have rest: "\<And>l. l \<in> set rest \<Longrightarrow> str_in ''=='' (strip l) \<Longrightarrow> P (strip l)"
    using Cons.prems(2) by simp
  show ?case
  proof (cases "str_in ''=='' (strip line) \<and> hd (py_split ''=='' (strip line)) \<noteq> []")
    case True
    then have "installed_loop ?m' rest k = Some v"
      using Cons.prems(3) by (simp add: Let_def)
    moreover have "\<And>k v. ?m' k = Some v \<Longrightarrow> P v"
      using Cons.prems(1) Cons.prems(2) [of line] True by (auto split: if_splits)
    ultimately show ?thesis
      using Cons.IH [of ?m'] rest by blast
  next
    case False
    then have "installed_loop m rest k = Some v"
      using Cons.prems(3) by (auto simp: Let_def split: if_splits)
    then show ?thesis
      using Cons.IH [of m] Cons.prems(1) rest by blast
  qed
qed

lemma installed_packages_has_marker:
  "installed_packages stdout k = Some v \<Longrightarrow> str_in ''=='' v"
  unfolding installed_packages_def
  by (rule installed_loop_values [where P = "str_in ''==''"]) auto

lemma installed_packages_value_ok:
  assumes "installed_packages (universal_newlines raw) k = Some v"
  shows "value_ok v"
proof (rule installed_loop_values [where P = value_ok, OF _ _ assms [unfolded installed_packages_def]])
  fix k v
  assume "Map.empty k = Some (v :: string)"
  then show "value_ok v" by simp
next
  fix line
  assume l: "line \<in> set (py_split ''\<newline>'' (strip (universal_newlines raw)))"
    and e: "str_in ''=='' (strip line)"
  from l have "CHR 0x0A \<notin> set line" and "set line \<subseteq> set (strip (universal_newlines raw))"
    using py_split_char_pieces [of line "CHR 0x0A"] by simp_all
  then have "CHR 0x0A \<notin> set line" and "CHR 0x0D \<notin> set line"
    using set_strip [of "universal_newlines raw"] universal_newlines_no_cr [of raw] by auto
  then show "value_ok (strip line)"
    using e set_strip [of line] by (auto simp: value_ok_def)
qed

subsection \<open>The shape of a rewritten line\<close>

lemma pin_line_cases:
  "pin_line m l = l \<or>
   (\<exists>g v. PACKAGE_REGEX_match l = Some g \<and> \<not> str_in ''=='' l \<and> m (package_key g) = Some v \<and>
      pin_line m l =
        (if str_in ''#'' l
         then v @ ''  # '' @ strip (tl (dropWhile (\<lambda>x. x \<noteq> CHR ''#'') l)) @ ''\<newline>''
         else v @ ''\<newline>''))"
proof (cases "PACKAGE_REGEX_match l")
  case None
  then show ?thesis by (simp add: pin_line_not_unpinned is_unpinned_def)
next
  case (Some g)
  show ?thesis
  proof (cases "str_in ''=='' l")
    case True
    then show ?thesis by (simp add: pin_line_not_unpinned is_unpinned_def)
  next
    case False
    show ?thesis
    proof (cases "m (package_key g)")
      case None
      with Some False have "pin_line m l = l"
        by (simp add: pin_line_def pin_step_def Let_def)
      then show ?thesis ..
    next
      case (Some v)
      have "str_in ''#'' l \<Longrightarrow>
              py_split_max1 ''#'' l ! 1 = tl (dropWhile (\<lambda>x. x \<noteq> CHR ''#'') l)"
        by (simp add: py_split_max1_def split_first_char str_in_char)
      with pin_line_found [where installed = m and line = l and g = g and pv = v,
          OF \<open>PACKAGE_REGEX_match l = Some g\<close> False Some]
      show ?thesis
        using \<open>PACKAGE_REGEX_match l = Some g\<close> False Some by auto
    qed
  qed
qed

lemma isspace_LF: "isspace (CHR 0x0A)"
  by (simp add: isspace_def ord_def)

lemma butlast_suffix: "suffix b l \<Longrightarrow> set (butlast b) \<subseteq> set (butlast l)"
  by (cases "b = []") (auto simp: suffix_def butlast_append)

lemma strip_no_LF:
  assumes "CHR 0x0A \<notin> set (butlast s)"
  shows "CHR 0x0A \<notin> set (strip s)"
proof -
  define t where "t = dropWhile isspace s"
  have "suffix t s" unfolding t_def by (rule suffix_dropWhile)
  then have b: "CHR 0x0A \<notin> set (butlast t)"
    using assms butlast_suffix by blast
  have "CHR 0x0A \<notin> set (dropWhile isspace (rev t))"
  proof (cases "t = []")
    case True
    then show ?thesis by simp
  next
    case False
    then have r: "rev t = last t # rev (butlast t)"
      by (metis append_butlast_last_id rev_eq_Cons_iff rev_rev_ident)
    show ?thesis
    proof (cases "isspace (last t)")
      case True
      then have "dropWhile isspace (rev t) = dropWhile isspace (rev (butlast t))"
        by (subst r) simp
      then have "set (dropWhile isspace (rev t)) \<subseteq> set (butlast t)"
        using set_dropWhileD [of _ isspace "rev (butlast t)"] by auto
      with b show ?thesis by blast
    next
      case False
      then have "last t \<noteq> CHR 0x0A" using isspace_LF by auto
      with b have "CHR 0x0A \<notin> set (rev t)"
        by (subst r) simp
      then show ?thesis
        using set_dropWhileD [of _ isspace "rev t"] by blast
    qed
  qed
  then show ?thesis by (simp add: strip_def t_def)
qed

lemma comment_text_no_LF:
  assumes "CHR 0x0A \<notin> set (butlast l)"
  shows "CHR 0x0A \<notin> set (strip (tl (dropWhile P l)))"
proof -
  have "suffix (tl (dropWhile P l)) l"
    by (meson suffix_dropWhile suffix_order.trans suffix_tl)
  then show ?thesis
    using assms butlast_suffix strip_no_LF by blast
qed

lemma comment_text_subset: "set (strip (tl (dropWhile P l))) \<subseteq> set l"
  using set_strip set_tl_dropWhile by fastforce

lemma pin_line_wf:
  assumes vals: "\<forall>k v. m k = Some v \<longrightarrow> value_ok v"
    and l: "l \<noteq> []" "CHR 0x0A \<notin> set (butlast l)"
  shows "pin_line m l \<noteq> []"
    and "CHR 0x0A \<notin> set (butlast (pin_line m l))"
    and "last l = CHR 0x0A \<Longrightarrow> last (pin_line m l) = CHR 0x0A"
    and "CHR 0x0D \<notin> set l \<Longrightarrow> CHR 0x0D \<notin> set (pin_line m l)"
proof -
  from pin_line_cases [of m l]
  consider "pin_line m l = l"
    | v where "value_ok v" "str_in ''#'' l"
        "pin_line m l = v @ ''  # '' @ strip (tl (dropWhile (\<lambda>x. x \<noteq> CHR ''#'') l)) @ ''\<newline>''"
    | v where "value_ok v" "pin_line m l = v @ ''\<newline>''"
    using vals by (auto split: if_splits)
  then have "pin_line m l \<noteq> [] \<and> CHR 0x0A \<notin> set (butlast (pin_line m l))
      \<and> (last l = CHR 0x0A \<longrightarrow> last (pin_line m l) = CHR 0x0A)
      \<and> (CHR 0x0D \<notin> set l \<longrightarrow> CHR 0x0D \<notin> set (pin_line m l))"
  proof cases
    case 1
    then show ?thesis using l by simp
  next
    case (2 v)
    let ?c = "strip (tl (dropWhile (\<lambda>x. x \<noteq> CHR ''#'') l))"
    have "butlast (v @ ''  # '' @ ?c @ ''\<newline>'') = v @ ''  # '' @ ?c"
      by (simp add: butlast_append)
    then show ?thesis
      using 2 comment_text_no_LF [OF l(2)] comment_text_subset [of "\<lambda>x. x \<noteq> CHR ''#''" l]
      by (auto simp: value_ok_def)
  next
    case (3 v)
    then show ?thesis by (auto simp: value_ok_def butlast_append)
  qed
  then show "pin_line m l \<noteq> []"
    and "CHR 0x0A \<notin> set (butlast (pin_line m l))"
    and "last l = CHR 0x0A \<Longrightarrow> last (pin_line m l) = CHR 0x0A"
    and "CHR 0x0D \<notin> set l \<Longrightarrow> CHR 0x0D \<notin> set (pin_line m l)"
    by blast+
qed

lemma lines_wf_pin:
  assumes "\<forall>k v. m k = Some v \<longrightarrow> value_ok v"
  shows "lines_wf ls \<Longrightarrow> lines_wf (map (pin_line m) ls)"
  by (induction ls rule: lines_wf.induct) (simp_all add: pin_line_wf [OF assms])

lemma pin_line_idem:
  assumes "\<forall>k v. m k = Some v \<longrightarrow> str_in ''=='' v"
  shows "pin_line m (pin_line m l) = pin_line m l"
proof -
  from pin_line_cases [of m l]
  consider "pin_line m l = l" | v x where "str_in ''=='' v" "pin_line m l = v @ x"
    using assms by (auto split: if_splits)
  then show ?thesis
  proof cases
    case 1
    then show ?thesis by simp
  next
    case (2 v x)
    then have "str_in ''=='' (pin_line m l)" by (simp add: str_in_append)
    then show ?thesis by (simp add: pin_line_not_unpinned is_unpinned_def)
  qed
qed

lemma readlines_writelines:
  assumes "lines_wf ls" and "\<And>l. l \<in> set ls \<Longrightarrow> CHR 0x0D \<notin> set l"
  shows "readlines (writelines ls) = ls"
proof -
  have "CHR 0x0D \<notin> set (concat ls)" using assms(2) by auto
  then show ?thesis
    using assms(1) by (simp add: readlines_def writelines_def universal_newlines_id splitlines_concat)
qed

lemma splitlines_set: "l \<in> set (splitlines s) \<Longrightarrow> set l \<subseteq> set s"
proof (induction s arbitrary: l)
  case Nil
  then show ?case by simp
next
  case (Cons c cs)
  then show ?case by (fastforce split: if_splits list.splits)
qed

lemma readlines_wf: "lines_wf (readlines content)"
  and readlines_no_cr: "l \<in> set (readlines content) \<Longrightarrow> CHR 0x0D \<notin> set l"
  using splitlines_set [of l "universal_newlines content"] universal_newlines_no_cr [of content]
  by (auto simp: readlines_def lines_wf_splitlines)

lemma lines_wf_line: "lines_wf ls \<Longrightarrow> l \<in> set ls \<Longrightarrow> l \<noteq> [] \<and> CHR 0x0A \<notin> set (butlast l)"
  by (induction ls rule: lines_wf.induct) auto

lemma pin_lines_idem:
  "pin_lines (installed_packages stdout) (pin_lines (installed_packages stdout) lines)
     = pin_lines (installed_packages stdout) lines"
  by (simp add: pin_lines_map pin_line_idem installed_packages_has_marker)

lemma pin_text_idem:
  "let installed = installed_packages (universal_newlines raw);
       pinned = writelines (pin_lines installed (readlines content))
   in readlines pinned = pin_lines installed (readlines content)
      \<and> writelines (pin_lines installed (readlines pinned)) = pinned"
proof -
  define m where "m = installed_packages (universal_newlines raw)"
  define ls where "ls = readlines content"
  have ok: "\<forall>k v. m k = Some v \<longrightarrow> value_ok v"
    unfolding m_def using installed_packages_value_ok by blast
  have wf: "lines_wf (map (pin_line m) ls)"
    using ok readlines_wf unfolding ls_def by (rule lines_wf_pin)
  have cr: "\<And>l. l \<in> set (map (pin_line m) ls) \<Longrightarrow> CHR 0x0D \<notin> set l"
  proof -
    fix l
    assume "l \<in> set (map (pin_line m) ls)"
    then obtain l0 where l0: "l0 \<in> set ls" "l = pin_line m l0" by auto
    then have "l0 \<noteq> [] \<and> CHR 0x0A \<notin> set (butlast l0)" and "CHR 0x0D \<notin> set l0"
      using readlines_wf lines_wf_line readlines_no_cr unfolding ls_def by blast+
    then show "CHR 0x0D \<notin> set l"
      using pin_line_wf(4) [where m = m and l = l0, OF ok] l0(2) by blast
  qed
  have rt: "readlines (writelines (pin_lines m ls)) = pin_lines m ls"
    unfolding pin_lines_map using wf cr by (rule readlines_writelines)
  have "pin_lines m (pin_lines m ls) = pin_lines m ls"
    using ok by (simp add: pin_lines_map pin_line_idem value_ok_def)
  with rt show ?thesis
    by (simp add: Let_def m_def ls_def)
qed

section \<open>The candidates of the upgrade checker\<close>

lemma targeted_upgrades_filter:
  "targeted_upgrades reqs rows =
     map (\<lambda>f. (f ! 0, f ! 1, f ! 2))
       (filter (\<lambda>f. length f = 4 \<and> lower (f ! 0) \<in> reqs) (map split_ws rows))"
  by (induction rows) (auto split: list.splits)

lemma requirements_loop_set:
  "requirements_loop acc lines =
     acc \<union> {package_key g | g line. line \<in> set lines \<and> PACKAGE_REGEX_match line = Some g}"
proof (induction lines arbitrary: acc)
  case Nil
  then show ?case by simp
next
  case (Cons l ls)
  show ?case
  proof (cases "PACKAGE_REGEX_match l")
    case None
    then show ?thesis using Cons.IH [of acc] by auto
  next
    case (Some g)
    then show ?thesis using Cons.IH [of "insert (package_key g) acc"] by auto
  qed
qed

section \<open>External commands\<close>

subsection \<open>run_command\<close>

lemma run_command_failed:
  "failed (fst (proc command (fs w))) \<Longrightarrow>
     fst (run_command proc command capture w) = Inl (SystemExit 1)"
  by (auto simp: run_command_def failed_def print_def prints_def Let_def
      split: prod.splits proc_result.splits)

lemma run_command_ok:
  "\<not> failed (fst (proc command (fs w))) \<Longrightarrow>
     run_command proc command capture w =
       (case proc command (fs w) of
          (Completed returncode so se, fs') \<Rightarrow>
            (Inr (if capture then Some (universal_newlines so) else None),
             w\<lparr>fs := fs', out := out w @ [''>> Running command: '' @ join '' '' command],
               calls := calls w @ [(command, Completed returncode so se)]\<rparr>))"
  by (auto simp: run_command_def failed_def print_def prints_def Let_def
      split: prod.splits proc_result.splits)

lemma run_command_calls:
  "calls (snd (run_command proc command capture w))
     = calls w @ [(command, fst (proc command (fs w)))]"
  by (auto simp: run_command_def print_def prints_def Let_def
      split: prod.splits proc_result.splits)

lemma run_command_stdin:
  "stdin (snd (run_command proc command capture w)) = stdin w"
  by (auto simp: run_command_def print_def prints_def Let_def
      split: prod.splits proc_result.splits)

lemma run_command_result:
  "fst (run_command proc command capture w) =
     (if failed (fst (proc command (fs w))) then Inl (SystemExit 1)
      else Inr (if capture
                then (case fst (proc command (fs w)) of
                        Completed returncode so se \<Rightarrow> Some (universal_newlines so)
                      | CommandNotFound \<Rightarrow> None)
                else None))"
  by (auto simp: run_command_def failed_def print_def prints_def Let_def
      split: prod.splits proc_result.splits)

lemma run_command_cases:
  obtains (exits) w' where "run_command proc command capture w = (Inl (SystemExit 1), w')"
      "failed (fst (proc command (fs w)))"
      "calls w' = calls w @ [(command, fst (proc command (fs w)))]"
      "stdin w' = stdin w"
    | (returns) w' so where "run_command proc command capture w
         = (Inr (if capture then Some so else None), w')"
      "\<not> failed (fst (proc command (fs w)))"
      "calls w' = calls w @ [(command, fst (proc command (fs w)))]"
      "stdin w' = stdin w"
proof (cases "failed (fst (proc command (fs w)))")
  case True
  obtain r w' where rw: "run_command proc command capture w = (r, w')"
    by (cases "run_command proc command capture w")
  with run_command_failed [of proc command w capture] run_command_calls [of proc command capture w]
    run_command_stdin [of proc command capture w] True
  show ?thesis by (intro exits [of w']) auto
next
  case False
  obtain r w' where rw: "run_command proc command capture w = (r, w')"
    by (cases "run_command proc command capture w")
  with run_command_result [of proc command capture w] run_command_calls [of proc command capture w]
    run_command_stdin [of proc command capture w] False
  show ?thesis
    by (cases "fst (proc command (fs w))") (auto simp: failed_def intro: returns [of _ w'])
qed

section \<open>Aggregation\<close>

lemma found_files_sorted:
  "sort (glob_sub_manifests w) = sorted_list_of_set (sub_manifests w)"
proof -
  have "set (filter is_sub_manifest (map fst (fs w))) = sub_manifests w"
    by (auto simp: sub_manifests_def dom_map_of_conv_image_fst)
  then have "sorted_list_of_set (sub_manifests w)
      = sort (remdups (filter is_sub_manifest (map fst (fs w))))"
    by (metis sorted_list_of_set_sort_remdups)
  then show ?thesis
    by (simp add: glob_sub_manifests_def remdups_filter)
qed

lemma read_all_files:
  assumes "\<forall>f \<in> set fl. \<exists>t. lookup w f = Some (File t)"
  shows "\<exists>ts. read_all w fl = Inr ts
           \<and> list_all2 (\<lambda>f t. \<exists>raw. lookup w f = Some (File raw) \<and> t = universal_newlines raw) fl ts"
  using assms
proof (induction fl)
  case Nil
  then show ?case by simp
next
  case (Cons f fl)
  then obtain raw ts where "lookup w f = Some (File raw)" "read_all w fl = Inr ts"
    "list_all2 (\<lambda>f t. \<exists>raw. lookup w f = Some (File raw) \<and> t = universal_newlines raw) fl ts"
    by auto
  then show ?case by (simp add: open_read_def)
qed

lemma read_all_directory:
  assumes "\<forall>f \<in> set fl. lookup w f \<noteq> None"
    and "\<exists>f \<in> set fl. lookup w f = Some Dir"
  shows "\<exists>f \<in> set fl. lookup w f = Some Dir \<and> read_all w fl = Inl (is_a_directory f)"
  using assms
proof (induction fl)
  case Nil
  then show ?case by simp
next
  case (Cons f fl)
  from Cons.prems(1) obtain n where n: "lookup w f = Some n" by auto
  show ?case
  proof (cases n)
    case Dir
    with n show ?thesis by (simp add: open_read_def)
  next
    case (File t)
    with n Cons.prems have "\<forall>f \<in> set fl. lookup w f \<noteq> None"
      and "\<exists>f \<in> set fl. lookup w f = Some Dir"
      by auto
    from Cons.IH [OF this] obtain g where "g \<in> set fl" "lookup w g = Some Dir"
      "read_all w fl = Inl (is_a_directory g)"
      by blast
    with n File show ?thesis by (auto simp: open_read_def)
  qed
qed

lemma is_sub_manifest_not_root: "is_sub_manifest p \<Longrightarrow> p \<noteq> [REQUIREMENTS_FILE]"
  by (auto simp: is_sub_manifest_def split: list.splits)

text \<open>
  The aggregation returns when neither the root manifest nor a found path is a
  directory: the root manifest then holds the found texts, joined.
\<close>

lemma source_and_combine_result:
  assumes root: "lookup w [REQUIREMENTS_FILE] \<noteq> Some Dir"
    and subs: "\<forall>p \<in> sub_manifests w. lookup w p \<noteq> Some Dir"
  shows "\<exists>ts. list_all2 (\<lambda>p t. \<exists>raw. lookup w p = Some (File raw) \<and> t = universal_newlines raw)
            (sorted_list_of_set (sub_manifests w)) ts
     \<and> source_and_combine_requirements w =
         (Inr (),
          w\<lparr>fs := AList.update [REQUIREMENTS_FILE] (File (join ''\<newline>'' ts)) (fs w),
            out := out w @ ''> Searching for 'requirements.txt' in subdirectories...''
                     # map (\<lambda>f. ''>> Found: '' @ path_str f) (sorted_list_of_set (sub_manifests w))\<rparr>)"
proof -
  let ?found = "sorted_list_of_set (sub_manifests w)"
  let ?w1 = "print (''> Searching for 'requirements.txt' in subdirectories...'') w"
  let ?w2 = "prints (map (\<lambda>f. ''>> Found: '' @ path_str f) ?found) ?w1"
  let ?w3 = "?w2\<lparr>fs := AList.update [REQUIREMENTS_FILE] (File []) (fs ?w2)\<rparr>"
  have fin: "finite (sub_manifests w)"
    by (simp add: sub_manifests_def finite_dom_map_of)
  have found: "sort (glob_sub_manifests ?w1) = ?found"
    using found_files_sorted [of w]
    by (simp add: glob_sub_manifests_def print_def)
  have ow: "open_write [REQUIREMENTS_FILE] ?w2 = Inr ?w3"
    using root
    by (auto simp: open_write_def lookup_def prints_def print_def split: option.splits node.splits)
  have rd: "\<And>f. f \<in> set ?found \<Longrightarrow> lookup ?w3 f = lookup w f \<and> (\<exists>t. lookup w f = Some (File t))"
  proof -
    fix f
    assume "f \<in> set ?found"
    then have m: "f \<in> sub_manifests w" using fin by simp
    then have "is_sub_manifest f" "lookup w f \<noteq> None"
      by (auto simp: sub_manifests_def lookup_def)
    moreover from m subs have "lookup w f \<noteq> Some Dir" by blast
    ultimately show "lookup ?w3 f = lookup w f \<and> (\<exists>t. lookup w f = Some (File t))"
      using is_sub_manifest_not_root [of f]
      by (cases "lookup w f"; cases "the (lookup w f)")
        (auto simp: lookup_def prints_def print_def update_conv')
  qed
  then have "\<forall>f \<in> set ?found. \<exists>t. lookup ?w3 f = Some (File t)" by auto
  from read_all_files [OF this] obtain ts where ts: "read_all ?w3 ?found = Inr ts"
    "list_all2 (\<lambda>f t. \<exists>raw. lookup ?w3 f = Some (File raw) \<and> t = universal_newlines raw) ?found ts"
    by blast
  from ts(2) rd have l2: "list_all2 (\<lambda>p t. \<exists>raw. lookup w p = Some (File raw) \<and> t = universal_newlines raw) ?found ts"
    by (auto simp: list_all2_conv_all_nth)
  have "source_and_combine_requirements w =
         (Inr (), write_text [REQUIREMENTS_FILE] (join ''\<newline>'' ts) ?w3)"
    using ts(1) found ow by (simp add: source_and_combine_requirements_def Let_def)
  then have "source_and_combine_requirements w =
         (Inr (),
          w\<lparr>fs := AList.update [REQUIREMENTS_FILE] (File (join ''\<newline>'' ts)) (fs w),
            out := out w @ ''> Searching for 'requirements.txt' in subdirectories...''
                     # map (\<lambda>f. ''>> Found: '' @ path_str f) ?found\<rparr>)"
    by (simp add: write_text_def prints_def print_def update_last)
  with l2 show ?thesis by blast
qed

text \<open>
  Otherwise the aggregation raises IsADirectoryError: at the root manifest with the
  files as they were, or at the first found directory with the root manifest emptied.
\<close>

lemma source_and_combine_raises:
  assumes "lookup w [REQUIREMENTS_FILE] = Some Dir
           \<or> (\<exists>p \<in> sub_manifests w. lookup w p = Some Dir)"
  shows "\<exists>p w'. source_and_combine_requirements w = (Inl (is_a_directory p), w')
       \<and> calls w' = calls w \<and> stdin w' = stdin w
       \<and> (p = [REQUIREMENTS_FILE] \<and> lookup w p = Some Dir \<and> fs w' = fs w
          \<or> p \<in> sub_manifests w \<and> lookup w p = Some Dir
            \<and> fs w' = AList.update [REQUIREMENTS_FILE] (File []) (fs w))"
proof -
  let ?found = "sorted_list_of_set (sub_manifests w)"
  let ?w1 = "print (''> Searching for 'requirements.txt' in subdirectories...'') w"
  let ?w2 = "prints (map (\<lambda>f. ''>> Found: '' @ path_str f) ?found) ?w1"
  let ?w3 = "?w2\<lparr>fs := AList.update [REQUIREMENTS_FILE] (File []) (fs ?w2)\<rparr>"
  have fin: "finite (sub_manifests w)"
    by (simp add: sub_manifests_def finite_dom_map_of)
  have found: "sort (glob_sub_manifests ?w1) = ?found"
    using found_files_sorted [of w]
    by (simp add: glob_sub_manifests_def print_def)
  show ?thesis
  proof (cases "lookup w [REQUIREMENTS_FILE] = Some Dir")
    case True
    then have "open_write [REQUIREMENTS_FILE] ?w2 = Inl (is_a_directory [REQUIREMENTS_FILE])"
      by (simp add: open_write_def lookup_def prints_def print_def)
    then have "source_and_combine_requirements w = (Inl (is_a_directory [REQUIREMENTS_FILE]), ?w2)"
      using found by (simp add: source_and_combine_requirements_def Let_def)
    moreover have "calls ?w2 = calls w" "stdin ?w2 = stdin w" "fs ?w2 = fs w"
      by (simp_all add: prints_def print_def)
    ultimately show ?thesis using True by blast
  next
    case False
    then have ow: "open_write [REQUIREMENTS_FILE] ?w2 = Inr ?w3"
      by (auto simp: open_write_def lookup_def prints_def print_def split: option.splits node.splits)
    have same: "\<And>f. f \<in> set ?found \<Longrightarrow> lookup ?w3 f = lookup w f \<and> lookup w f \<noteq> None"
    proof -
      fix f
      assume "f \<in> set ?found"
      then have "f \<in> sub_manifests w" using fin by simp
      then have "is_sub_manifest f" "lookup w f \<noteq> None"
        by (auto simp: sub_manifests_def lookup_def)
      then show "lookup ?w3 f = lookup w f \<and> lookup w f \<noteq> None"
        using is_sub_manifest_not_root [of f]
        by (simp add: lookup_def prints_def print_def update_conv')
    qed
    from False assms obtain p where "p \<in> sub_manifests w" "lookup w p = Some Dir" by blast
    then have "\<exists>f \<in> set ?found. lookup ?w3 f = Some Dir"
      using fin same by auto
    moreover have "\<forall>f \<in> set ?found. lookup ?w3 f \<noteq> None"
      using same by simp
    ultimately obtain g where g: "g \<in> set ?found" "lookup ?w3 g = Some Dir"
      "read_all ?w3 ?found = Inl (is_a_directory g)"
      using read_all_directory [of ?found ?w3] by blast
    then have "source_and_combine_requirements w = (Inl (is_a_directory g), ?w3)"
      using found ow by (simp add: source_and_combine_requirements_def Let_def)
    moreover have "calls ?w3 = calls w" "stdin ?w3 = stdin w"
      "fs ?w3 = AList.update [REQUIREMENTS_FILE] (File []) (fs w)"
      by (simp_all add: prints_def print_def)
    moreover have "g \<in> sub_manifests w" "lookup w g = Some Dir"
      using g same fin by auto
    ultimately show ?thesis by blast
  qed
qed

lemma source_and_combine_ends:
  "(\<exists>w'. source_and_combine_requirements w = (Inr (), w')
      \<and> is_file w' [REQUIREMENTS_FILE] \<and> calls w' = calls w \<and> stdin w' = stdin w)
   \<or> (\<exists>p w'. source_and_combine_requirements w = (Inl (is_a_directory p), w')
      \<and> calls w' = calls w \<and> stdin w' = stdin w)"
proof (cases "lookup w [REQUIREMENTS_FILE] = Some Dir
           \<or> (\<exists>p \<in> sub_manifests w. lookup w p = Some Dir)")
  case True
  from source_and_combine_raises [OF this] show ?thesis by blast
next
  case False
  then have "lookup w [REQUIREMENTS_FILE] \<noteq> Some Dir"
    and "\<forall>p \<in> sub_manifests w. lookup w p \<noteq> Some Dir"
    by auto
  from source_and_combine_result [OF this] obtain ts where
    "source_and_combine_requirements w =
         (Inr (),
          w\<lparr>fs := AList.update [REQUIREMENTS_FILE] (File (join ''\<newline>'' ts)) (fs w),
            out := out w @ ''> Searching for 'requirements.txt' in subdirectories...''
                     # map (\<lambda>f. ''>> Found: '' @ path_str f) (sorted_list_of_set (sub_manifests w))\<rparr>)"
    by blast
  then show ?thesis by (simp add: is_file_def lookup_def update_conv')
qed

section \<open>How a stage ends\<close>

text \<open>
  Every stage returns, or exits with status 1 right after a command failed, or raises
  IsADirectoryError from an \<open>open\<close> with no failed command of its own. The same holds for
  the whole run.
\<close>

definition exits_or_returns :: "world \<Rightarrow> (exn + 'a) \<times> world \<Rightarrow> bool" where
  "exits_or_returns w rw =
     (((\<exists>x. fst rw = Inr x) \<or> (\<exists>m. fst rw = Inl (IsADirectoryError m)))
        \<and> (all_succeeded w \<longrightarrow> all_succeeded (snd rw))
      \<or> fst rw = Inl (SystemExit 1) \<and> \<not> all_succeeded (snd rw))"

lemma all_succeeded_print [simp]: "all_succeeded (print s w) = all_succeeded w"
  by (simp add: all_succeeded_def print_def)

lemma all_succeeded_prints [simp]: "all_succeeded (prints ss w) = all_succeeded w"
  by (simp add: all_succeeded_def prints_def)

lemma all_succeeded_write_text [simp]: "all_succeeded (write_text p t w) = all_succeeded w"
  by (simp add: all_succeeded_def write_text_def)

lemma all_succeeded_open_write:
  "open_write p w = Inr w' \<Longrightarrow> all_succeeded w' = all_succeeded w"
  by (auto simp: all_succeeded_def open_write_def split: option.splits node.splits)

lemma open_write_error: "open_write p w = Inl e \<Longrightarrow> e = is_a_directory p"
  by (auto simp: open_write_def split: option.splits node.splits)

lemma open_read_error:
  "open_read w p = Inl e \<Longrightarrow> e = no_such_file p \<or> e = is_a_directory p"
  by (auto simp: open_read_def split: option.splits node.splits)

lemma returns_ok [simp]:
  "exits_or_returns w (Inr x, w') = (all_succeeded w \<longrightarrow> all_succeeded w')"
  by (auto simp: exits_or_returns_def)

lemma exits_ok [simp]:
  "exits_or_returns w (Inl e, w') =
     ((\<exists>m. e = IsADirectoryError m) \<and> (all_succeeded w \<longrightarrow> all_succeeded w')
      \<or> e = SystemExit 1 \<and> \<not> all_succeeded w')"
  by (auto simp: exits_or_returns_def)

lemma exits_or_returns_from:
  "exits_or_returns w1 rw \<Longrightarrow> (all_succeeded w \<longrightarrow> all_succeeded w1) \<Longrightarrow> exits_or_returns w rw"
  by (auto simp: exits_or_returns_def)

lemma run_command_outcome: "exits_or_returns w (run_command proc command capture w)"
proof (cases rule: run_command_cases [of proc command capture w])
  case (exits w')
  then show ?thesis by (simp add: all_succeeded_def)
next
  case (returns w' so)
  then show ?thesis by (simp add: all_succeeded_def)
qed

lemma run_command_captured:
  "run_command proc command True w \<noteq> (Inr None, w')"
  by (cases rule: run_command_cases [of proc command True w]) auto

lemma setup_virtual_environment_outcome:
  "exits_or_returns w (setup_virtual_environment proc w)"
proof -
  let ?w1 = "print (''>> Creating virtual environment at '' @ apos @ VENV_DIR @ apos @ ''...'') w"
  from run_command_outcome [of ?w1 proc "[PYTHON_EXECUTABLE, ''-m'', ''venv'', VENV_DIR]" False]
  show ?thesis
    by (auto simp: setup_virtual_environment_def Let_def split: prod.splits sum.splits)
qed

lemma pin_dependencies_outcome:
  "exits_or_returns w (pin_dependencies proc venv w)"
proof -
  let ?w0 = "print ''> Checking for unpinned dependencies in requirements.txt...'' w"
  let ?w1 = "print ''> Unpinned dependencies found. Generating pinned versions...'' ?w0"
  let ?cmd = "[path_str venv, ''-m'', ''pip'', ''freeze'']"
  show ?thesis
  proof (cases "open_read ?w0 [REQUIREMENTS_FILE]")
    case (Inl e)
    with open_read_error [OF Inl] show ?thesis
      by (auto simp: pin_dependencies_def Let_def no_such_file_def is_a_directory_def)
  next
    case (Inr content)
    show ?thesis
    proof (cases "needs_pinning (readlines content)")
      case False
      with Inr show ?thesis by (simp add: pin_dependencies_def Let_def)
    next
      case True
      obtain r w2 where rc: "run_command proc ?cmd True ?w1 = (r, w2)"
        by (cases "run_command proc ?cmd True ?w1")
      with run_command_outcome [of ?w1 proc ?cmd True]
      have o: "exits_or_returns w (r, w2)" by (auto simp: exits_or_returns_def)
      show ?thesis
      proof (cases r)
        case (Inl e)
        with o rc Inr True show ?thesis by (simp add: pin_dependencies_def Let_def)
      next
        case r: (Inr so)
        with rc run_command_captured [of proc ?cmd ?w1 w2] obtain stdout where so: "so = Some stdout"
          by (cases so) auto
        from o r have a: "all_succeeded w \<longrightarrow> all_succeeded w2" by simp
        obtain new_lines printed where pl:
          "pin_loop (installed_packages stdout) (readlines content) = (new_lines, printed)"
          by (cases "pin_loop (installed_packages stdout) (readlines content)")
        show ?thesis
        proof (cases "open_write [REQUIREMENTS_FILE] (prints printed w2)")
          case (Inl e)
          with open_write_error [OF Inl] a show ?thesis
            using Inr True rc r so pl
            by (simp add: pin_dependencies_def Let_def is_a_directory_def)
        next
          case (Inr w4)
          with all_succeeded_open_write [OF Inr] a show ?thesis
            using \<open>open_read ?w0 [REQUIREMENTS_FILE] = Inr content\<close> True rc r so pl
            by (simp add: pin_dependencies_def Let_def)
        qed
      qed
    qed
  qed
qed

lemma all_succeeded_input: "all_succeeded (snd (input prompt w)) = all_succeeded w"
  by (simp add: input_def all_succeeded_def print_def Let_def split: list.splits)

lemma input_error: "fst (input prompt w) = Inl e \<Longrightarrow> e = EOFError"
  by (auto simp: input_def Let_def split: list.splits)

lemma confirm_and_upgrade_outcome:
  "exits_or_returns w (confirm_and_upgrade proc venv targeted w)"
proof -
  let ?w1 = "prints (upgrade_listing targeted) w"
  obtain r w2 where i: "input upgrade_prompt ?w1 = (r, w2)"
    by (cases "input upgrade_prompt ?w1")
  then have w2: "all_succeeded w2 = all_succeeded w"
    using all_succeeded_input [of upgrade_prompt ?w1] by simp
  from i have e: "\<And>e. r = Inl e \<Longrightarrow> e = EOFError"
    using input_error [of upgrade_prompt ?w1] by simp
  let ?cmd = "[path_str venv, ''-m'', ''pip'', ''install'', ''--upgrade''] @ map fst targeted"
  from run_command_outcome [of w2 proc ?cmd False]
  show ?thesis
    using i w2 e
    by (auto simp: confirm_and_upgrade_def Let_def split: prod.splits sum.splits)
qed

lemma check_for_upgrades_outcome:
  "exits_or_returns w (check_for_upgrades proc venv w)"
proof -
  let ?w0 = "print ''> Checking for package upgrades...'' w"
  let ?cmd = "[path_str venv, ''-m'', ''pip'', ''list'', ''--outdated'']"
  have c: "\<And>w1 targeted. all_succeeded w \<longrightarrow> all_succeeded w1 \<Longrightarrow>
      exits_or_returns w (confirm_and_upgrade proc venv targeted w1)"
    using confirm_and_upgrade_outcome exits_or_returns_from by blast
  show ?thesis
  proof (cases "open_read ?w0 [REQUIREMENTS_FILE]")
    case (Inl e)
    with open_read_error [OF Inl] show ?thesis
      by (auto simp: check_for_upgrades_def Let_def no_such_file_def is_a_directory_def)
  next
    case (Inr content)
    from run_command_outcome [of ?w0 proc ?cmd True] run_command_captured [of proc ?cmd ?w0]
    show ?thesis
      using Inr
      by (auto simp: check_for_upgrades_def Let_def c
          split: prod.splits sum.splits option.splits)
  qed
qed

lemma source_and_combine_outcome:
  "exits_or_returns w (source_and_combine_requirements w)"
  using source_and_combine_ends [of w]
  by (auto simp: all_succeeded_def is_a_directory_def)

lemma main_outcome: "exits_or_returns w (main proc w)"
proof (cases "source_and_combine_requirements w")
  case p1: (Pair r1 w1)
  with source_and_combine_outcome [of w] have o1: "exits_or_returns w (r1, w1)" by simp
  show ?thesis
  proof (cases r1)
    case (Inl e)
    with p1 o1 show ?thesis by (simp add: main_def)
  next
    case i1: (Inr u)
    with o1 have a1: "all_succeeded w \<longrightarrow> all_succeeded w1" by simp
    from source_and_combine_ends [of w] p1 i1 have f1: "is_file w1 [REQUIREMENTS_FILE]"
      by auto
    show ?thesis
    proof (cases "setup_virtual_environment proc w1")
      case (Pair r2 w2)
      with setup_virtual_environment_outcome [of w1 proc] a1
      have o2: "exits_or_returns w (r2, w2)" by (auto simp: exits_or_returns_def)
      show ?thesis
      proof (cases r2)
        case (Inl e)
        with Pair p1 i1 f1 o2 show ?thesis by (simp add: main_def)
      next
        case (Inr venv)
        with o2 have a2: "all_succeeded w \<longrightarrow> all_succeeded w2" by simp
        let ?w3 = "print (''Installing dependencies from '' @ apos @ REQUIREMENTS_FILE @ apos @ ''...'') w2"
        let ?cmd = "[path_str venv, ''-m'', ''pip'', ''install'', ''-r'', REQUIREMENTS_FILE]"
        show ?thesis
        proof (cases "run_command proc ?cmd False ?w3")
          case p4: (Pair r4 w4)
          with run_command_outcome [of ?w3 proc ?cmd False] a2
          have o4: "exits_or_returns w (r4, w4)" by (auto simp: exits_or_returns_def)
          show ?thesis
          proof (cases r4)
            case (Inl e)
            with Pair Inr p1 i1 f1 p4 o4 show ?thesis by (simp add: main_def)
          next
            case i4: (Inr x4)
            with o4 have a4: "all_succeeded w \<longrightarrow> all_succeeded w4" by simp
            let ?w5 = "print ''Dependencies installed.'' w4"
            show ?thesis
            proof (cases "pin_dependencies proc venv ?w5")
              case p6: (Pair r6 w6)
              with pin_dependencies_outcome [of ?w5 proc venv] a4
              have o6: "exits_or_returns w (r6, w6)" by (auto simp: exits_or_returns_def)
              show ?thesis
              proof (cases r6)
                case (Inl e)
                with Pair Inr p1 i1 f1 p4 i4 p6 o6 show ?thesis by (simp add: main_def)
              next
                case i6: (Inr x6)
                with o6 have a6: "all_succeeded w \<longrightarrow> all_succeeded w6" by simp
                from check_for_upgrades_outcome [of w6 proc venv] a6
                have "exits_or_returns w (check_for_upgrades proc venv w6)"
                  by (rule exits_or_returns_from)
                then show ?thesis
                  using Pair Inr p1 i1 f1 p4 i4 p6 i6 by (simp add: main_def)
              qed
            qed
          qed
        qed
      qed
    qed
  qed
qed

section \<open>The root manifest after aggregation\<close>

text \<open>
  Claim C1. With no sub-manifest found the run is to end on the missing-manifest error
  of \<open>main\<close>, whose message says that the root manifest was not generated. The code does
  not get there: opening the root manifest for writing creates it, so the test of
  \<open>main\<close> finds a file. In a project with no files and with every command succeeding,
  nothing is found, the aggregation writes an empty root manifest, and the run goes on
  to create the environment, install and check, and returns. In a project with a root
  manifest and no sub-manifest, the root manifest is emptied and the run returns too.
\<close>

theorem no_sub_manifests_run_completes:
  "glob_sub_manifests empty_project = []
   \<and> fst (source_and_combine_requirements empty_project) = Inr ()
   \<and> lookup (snd (source_and_combine_requirements empty_project)) [REQUIREMENTS_FILE]
       = Some (File [])
   \<and> fst (main quiet_success empty_project) = Inr ()
   \<and> map fst (calls (snd (main quiet_success empty_project)))
       = [[''python3.9'', ''-m'', ''venv'', ''venv''],
          [''venv/bin/python'', ''-m'', ''pip'', ''install'', ''-r'', ''requirements.txt''],
          [''venv/bin/python'', ''-m'', ''pip'', ''list'', ''--outdated'']]
   \<and> lookup (snd (main quiet_success empty_project)) [REQUIREMENTS_FILE] = Some (File [])
   \<and> lookup (flask_project []) [REQUIREMENTS_FILE] = Some (File ''flask\<newline>'')
   \<and> glob_sub_manifests (flask_project []) = []
   \<and> fst (main quiet_success (flask_project [])) = Inr ()
   \<and> lookup (snd (main quiet_success (flask_project []))) [REQUIREMENTS_FILE] = Some (File [])"
proof (intro conjI)
  show "glob_sub_manifests empty_project = []"
    by code_simp
  show "fst (source_and_combine_requirements empty_project) = Inr ()"
    by code_simp
  show "lookup (snd (source_and_combine_requirements empty_project)) [REQUIREMENTS_FILE]
       = Some (File [])"
    by code_simp
  show "fst (main quiet_success empty_project) = Inr ()"
    by code_simp
  show "map fst (calls (snd (main quiet_success empty_project)))
       = [[''python3.9'', ''-m'', ''venv'', ''venv''],
          [''venv/bin/python'', ''-m'', ''pip'', ''install'', ''-r'', ''requirements.txt''],
          [''venv/bin/python'', ''-m'', ''pip'', ''list'', ''--outdated'']]"
    by code_simp
  show "lookup (snd (main quiet_success empty_project)) [REQUIREMENTS_FILE] = Some (File [])"
    by code_simp
  show "lookup (flask_project []) [REQUIREMENTS_FILE] = Some (File ''flask\<newline>'')"
    by code_simp
  show "glob_sub_manifests (flask_project []) = []"
    by code_simp
  show "fst (main quiet_success (flask_project [])) = Inr ()"
    by code_simp
  show "lookup (snd (main quiet_success (flask_project []))) [REQUIREMENTS_FILE] = Some (File [])"
    by code_simp
qed



section \<open>Missing manifest and failed commands\<close>

lemma pin_dependencies_missing:
  "lookup w [REQUIREMENTS_FILE] = None \<Longrightarrow>
     pin_dependencies proc venv w =
       (Inr (), w\<lparr>out := out w @ [''> Checking for unpinned dependencies in requirements.txt...'',
                                   ''>> WARNING: 'requirements.txt' not found. Skipping dependency pinning.'']\<rparr>)"
  by (simp add: pin_dependencies_def open_read_def no_such_file_def lookup_def print_def Let_def
      apos_def REQUIREMENTS_FILE_def)

lemma check_for_upgrades_missing:
  "lookup w [REQUIREMENTS_FILE] = None \<Longrightarrow>
     check_for_upgrades proc venv w =
       (Inr (), w\<lparr>out := out w @ [''> Checking for package upgrades...'',
                                   ''> WARNING: 'requirements.txt' not found. Cannot check for targeted upgrades.'']\<rparr>)"
  by (simp add: check_for_upgrades_def open_read_def no_such_file_def lookup_def print_def Let_def
      apos_def REQUIREMENTS_FILE_def)

text \<open>
  Claim C8. When the root manifest is missing, the pinning stage and the upgrade
  checker each print their first line and a warning and return: files, input and the
  record of commands are as before. A command whose executable is missing or whose
  return code is not zero makes \<open>run_command\<close> exit with status 1, and a run that starts
  with no failed command ends with exit status 1 exactly when one of its commands
  failed.
\<close>

theorem missing_manifest_skips_failed_command_exits:
  "(lookup w [REQUIREMENTS_FILE] = None \<longrightarrow>
      pin_dependencies proc venv w =
        (Inr (), w\<lparr>out := out w @ [''> Checking for unpinned dependencies in requirements.txt...'',
                                    ''>> WARNING: 'requirements.txt' not found. Skipping dependency pinning.'']\<rparr>)
      \<and> check_for_upgrades proc venv w =
        (Inr (), w\<lparr>out := out w @ [''> Checking for package upgrades...'',
                                    ''> WARNING: 'requirements.txt' not found. Cannot check for targeted upgrades.'']\<rparr>))
   \<and> (failed (fst (proc command (fs w))) \<longrightarrow>
        fst (run_command proc command capture w) = Inl (SystemExit 1))
   \<and> (all_succeeded w \<longrightarrow>
        (\<not> all_succeeded (snd (main proc w))) = (fst (main proc w) = Inl (SystemExit 1)))"
proof (intro conjI impI)
  assume "lookup w [REQUIREMENTS_FILE] = None"
  then show "pin_dependencies proc venv w =
        (Inr (), w\<lparr>out := out w @ [''> Checking for unpinned dependencies in requirements.txt...'',
                                    ''>> WARNING: 'requirements.txt' not found. Skipping dependency pinning.'']\<rparr>)"
    and "check_for_upgrades proc venv w =
        (Inr (), w\<lparr>out := out w @ [''> Checking for package upgrades...'',
                                    ''> WARNING: 'requirements.txt' not found. Cannot check for targeted upgrades.'']\<rparr>)"
    by (rule pin_dependencies_missing, rule check_for_upgrades_missing)
next
  assume "failed (fst (proc command (fs w)))"
  then show "fst (run_command proc command capture w) = Inl (SystemExit 1)"
    by (rule run_command_failed)
next
  assume "all_succeeded w"
  then show "(\<not> all_succeeded (snd (main proc w))) = (fst (main proc w) = Inl (SystemExit 1))"
    using main_outcome [of w proc] by (auto simp: exits_or_returns_def)
qed

theorem missing_manifest_skips_failed_command_exits_witness:
  "lookup empty_project [REQUIREMENTS_FILE] = None
   \<and> pin_dependencies nothing_installed PYTHON_VENV_EXECUTABLE empty_project =
        (Inr (), empty_project\<lparr>out := out empty_project @
           [''> Checking for unpinned dependencies in requirements.txt...'',
            ''>> WARNING: 'requirements.txt' not found. Skipping dependency pinning.'']\<rparr>)
   \<and> check_for_upgrades nothing_installed PYTHON_VENV_EXECUTABLE empty_project =
        (Inr (), empty_project\<lparr>out := out empty_project @
           [''> Checking for package upgrades...'',
            ''> WARNING: 'requirements.txt' not found. Cannot check for targeted upgrades.'']\<rparr>)
   \<and> failed (fst (nothing_installed [''python3.9'', ''-m'', ''venv'', ''venv''] (fs empty_project)))
   \<and> fst (run_command nothing_installed [''python3.9'', ''-m'', ''venv'', ''venv''] False empty_project)
       = Inl (SystemExit 1)
   \<and> all_succeeded empty_project
   \<and> fst (main nothing_installed empty_project) = Inl (SystemExit 1)
   \<and> \<not> all_succeeded (snd (main nothing_installed empty_project))
   \<and> fst (main install_fails empty_project) = Inl (SystemExit 1)
   \<and> \<not> all_succeeded (snd (main install_fails empty_project))"
proof -
  let ?cmd = "[''python3.9'', ''-m'', ''venv'', ''venv'']"
  note t = missing_manifest_skips_failed_command_exits [where w = empty_project
      and proc = nothing_installed and venv = PYTHON_VENV_EXECUTABLE and command = ?cmd
      and capture = False]
  note u = missing_manifest_skips_failed_command_exits [where w = empty_project
      and proc = install_fails and venv = PYTHON_VENV_EXECUTABLE and command = ?cmd
      and capture = False]
  have h1: "lookup empty_project [REQUIREMENTS_FILE] = None"
    by (simp add: lookup_def empty_project_def)
  have h2: "failed (fst (nothing_installed ?cmd (fs empty_project)))"
    by (simp add: failed_def nothing_installed_def)
  have h3: "all_succeeded empty_project"
    by (simp add: all_succeeded_def empty_project_def)
  have e1: "fst (main nothing_installed empty_project) = Inl (SystemExit 1)"
    by code_simp
  have e2: "fst (main install_fails empty_project) = Inl (SystemExit 1)"
    by code_simp
  from t h1 have a: "pin_dependencies nothing_installed PYTHON_VENV_EXECUTABLE empty_project =
        (Inr (), empty_project\<lparr>out := out empty_project @
           [''> Checking for unpinned dependencies in requirements.txt...'',
            ''>> WARNING: 'requirements.txt' not found. Skipping dependency pinning.'']\<rparr>)"
    and b: "check_for_upgrades nothing_installed PYTHON_VENV_EXECUTABLE empty_project =
        (Inr (), empty_project\<lparr>out := out empty_project @
           [''> Checking for package upgrades...'',
            ''> WARNING: 'requirements.txt' not found. Cannot check for targeted upgrades.'']\<rparr>)"
    by blast+
  from t h2 have c: "fst (run_command nothing_installed ?cmd False empty_project) = Inl (SystemExit 1)"
    by blast
  from t h3 e1 have d: "\<not> all_succeeded (snd (main nothing_installed empty_project))"
    by blast
  from u h3 e2 have f: "\<not> all_succeeded (snd (main install_fails empty_project))"
    by blast
  from h1 a b h2 c h3 e1 d e2 f show ?thesis by blast
qed

section \<open>Confirmation and upgrade\<close>

lemma check_for_upgrades_candidates:
  assumes f: "lookup w [REQUIREMENTS_FILE] = Some (File content)"
    and p: "proc [path_str venv, ''-m'', ''pip'', ''list'', ''--outdated''] (fs w)
              = (Completed 0 so se, fs1)"
    and c: "targeted_upgrades (requirements_packages (readlines content))
              (drop 2 (py_split ''\<newline>'' (strip (universal_newlines so)))) = cands"
    and n: "cands \<noteq> []"
  shows "check_for_upgrades proc venv w =
           confirm_and_upgrade proc venv cands
             (w\<lparr>fs := fs1,
                out := out w @ [''> Checking for package upgrades...'',
                                ''>> Running command: '' @ path_str venv @ '' -m pip list --outdated''],
                calls := calls w @ [([path_str venv, ''-m'', ''pip'', ''list'', ''--outdated''],
                                     Completed 0 so se)]\<rparr>)"
proof -
  let ?w0 = "print ''> Checking for package upgrades...'' w"
  let ?cmd = "[path_str venv, ''-m'', ''pip'', ''list'', ''--outdated'']"
  have nf: "\<not> failed (fst (proc ?cmd (fs ?w0)))"
    using p by (simp add: failed_def print_def)
  have rc: "run_command proc ?cmd True ?w0 =
      (Inr (Some (universal_newlines so)),
       w\<lparr>fs := fs1,
          out := out w @ [''> Checking for package upgrades...'',
                          ''>> Running command: '' @ path_str venv @ '' -m pip list --outdated''],
          calls := calls w @ [(?cmd, Completed 0 so se)]\<rparr>)"
    using p by (simp add: run_command_ok failed_def print_def)
  from c n have "drop 2 (py_split ''\<newline>'' (strip (universal_newlines so))) \<noteq> []"
    by auto
  then have len: "\<not> length (py_split ''\<newline>'' (strip (universal_newlines so))) \<le> 2"
    by simp
  have f0: "open_read ?w0 [REQUIREMENTS_FILE] = Inr content"
    using f by (simp add: open_read_def lookup_def print_def)
  show ?thesis
    using c n len by (simp add: check_for_upgrades_def Let_def rc f0)
qed

lemma check_for_upgrades_listed:
  assumes f: "lookup w [REQUIREMENTS_FILE] = Some (File content)"
    and p: "proc [path_str venv, ''-m'', ''pip'', ''list'', ''--outdated''] (fs w)
              = (Completed 0 so se, fs1)"
  shows "check_for_upgrades proc venv w =
           (let outdated_lines = py_split ''\<newline>'' (strip (universal_newlines so));
                targeted = targeted_upgrades (requirements_packages (readlines content))
                             (drop 2 outdated_lines);
                w1 = w\<lparr>fs := fs1,
                       out := out w @ [''> Checking for package upgrades...'',
                                       ''>> Running command: '' @ path_str venv @ '' -m pip list --outdated''],
                       calls := calls w @ [([path_str venv, ''-m'', ''pip'', ''list'', ''--outdated''],
                                            Completed 0 so se)]\<rparr>
            in if length outdated_lines \<le> 2
               then (Inr (), print ''> All packages are up to date.'' w1)
               else if targeted = []
               then (Inr (), print ''> All packages listed in requirements.txt are up to date.'' w1)
               else confirm_and_upgrade proc venv targeted w1)"
proof -
  let ?w0 = "print ''> Checking for package upgrades...'' w"
  let ?cmd = "[path_str venv, ''-m'', ''pip'', ''list'', ''--outdated'']"
  have rc: "run_command proc ?cmd True ?w0 =
      (Inr (Some (universal_newlines so)),
       w\<lparr>fs := fs1,
          out := out w @ [''> Checking for package upgrades...'',
                          ''>> Running command: '' @ path_str venv @ '' -m pip list --outdated''],
          calls := calls w @ [(?cmd, Completed 0 so se)]\<rparr>)"
    using p by (simp add: run_command_ok failed_def print_def)
  have f0: "open_read ?w0 [REQUIREMENTS_FILE] = Inr content"
    using f by (simp add: open_read_def lookup_def print_def)
  show ?thesis
    by (simp add: check_for_upgrades_def Let_def rc f0)
qed

text \<open>
  The keys of a manifest in closed form: of every line that has one, the leading run of
  name characters after the leading whitespace, lowercased.
\<close>

lemma requirements_packages_names:
  "requirements_packages lines =
     {lower (takeWhile name_char (dropWhile isspace line)) | line.
        line \<in> set lines \<and> takeWhile name_char (dropWhile isspace line) \<noteq> []}"
proof -
  have m: "\<And>line. (\<exists>g. PACKAGE_REGEX_match line = Some g)
      = (takeWhile name_char (dropWhile isspace line) \<noteq> [])"
    by (auto simp: PACKAGE_REGEX_match_greedy Let_def split: if_splits)
  have "{package_key g | g line. line \<in> set lines \<and> PACKAGE_REGEX_match line = Some g}
      = {lower (takeWhile name_char (dropWhile isspace line)) | line.
           line \<in> set lines \<and> (\<exists>g. PACKAGE_REGEX_match line = Some g)}"
  proof (intro set_eqI iffI)
    fix k
    assume "k \<in> {package_key g | g line. line \<in> set lines \<and> PACKAGE_REGEX_match line = Some g}"
    then obtain g line where "k = package_key g" "line \<in> set lines"
      "PACKAGE_REGEX_match line = Some g"
      by blast
    then show "k \<in> {lower (takeWhile name_char (dropWhile isspace line)) | line.
           line \<in> set lines \<and> (\<exists>g. PACKAGE_REGEX_match line = Some g)}"
      using package_key_match [of line g] by auto
  next
    fix k
    assume "k \<in> {lower (takeWhile name_char (dropWhile isspace line)) | line.
           line \<in> set lines \<and> (\<exists>g. PACKAGE_REGEX_match line = Some g)}"
    then obtain g line where "k = lower (takeWhile name_char (dropWhile isspace line))"
      "line \<in> set lines" "PACKAGE_REGEX_match line = Some g"
      by blast
    then have "k = package_key g \<and> line \<in> set lines \<and> PACKAGE_REGEX_match line = Some g"
      using package_key_match [of line g] by simp
    then show "k \<in> {package_key g | g line. line \<in> set lines \<and> PACKAGE_REGEX_match line = Some g}"
      by blast
  qed
  then show ?thesis
    by (simp add: requirements_packages_def requirements_loop_set m)
qed

text \<open>
  Claim C6. The rows of the outdated list are the lines of the stripped output after the
  first two. A row is split at whitespace; a row that does not give exactly four fields is
  skipped, with no message and no error. The candidates are the rows of four fields whose
  first field, lowercased, is a key of the manifest, as (name, current, latest), in the
  order of the rows. The keys of the manifest are the matched names, lowercased, without
  extras: of every line that starts, after whitespace, with letters, digits, hyphens or
  underscores, that leading run in lower case. With a manifest and a successful outdated
  list, the checker reports that all is up to date when there is no candidate, and
  otherwise goes on to the confirmation with exactly these candidates.
\<close>

theorem upgrade_candidates_filtered:
  "targeted_upgrades (requirements_packages lines) (drop 2 (py_split ''\<newline>'' (strip stdout)))
     = map (\<lambda>f. (f ! 0, f ! 1, f ! 2))
         (filter (\<lambda>f. length f = 4 \<and> lower (f ! 0) \<in> requirements_packages lines)
            (map split_ws (drop 2 (py_split ''\<newline>'' (strip stdout)))))
   \<and> requirements_packages lines
       = {package_key g | g line. line \<in> set lines \<and> PACKAGE_REGEX_match line = Some g}
   \<and> requirements_packages lines
       = {lower (takeWhile name_char (dropWhile isspace line)) | line.
            line \<in> set lines \<and> takeWhile name_char (dropWhile isspace line) \<noteq> []}
   \<and> (lookup w [REQUIREMENTS_FILE] = Some (File content)
        \<and> proc [path_str venv, ''-m'', ''pip'', ''list'', ''--outdated''] (fs w)
             = (Completed 0 so se, fs1) \<longrightarrow>
        check_for_upgrades proc venv w =
          (let rows = drop 2 (py_split ''\<newline>'' (strip (universal_newlines so)));
               candidates =
                 map (\<lambda>f. (f ! 0, f ! 1, f ! 2))
                   (filter (\<lambda>f. length f = 4
                                 \<and> lower (f ! 0) \<in> requirements_packages (readlines content))
                      (map split_ws rows));
               w1 = w\<lparr>fs := fs1,
                      out := out w @ [''> Checking for package upgrades...'',
                                      ''>> Running command: '' @ path_str venv @ '' -m pip list --outdated''],
                      calls := calls w @ [([path_str venv, ''-m'', ''pip'', ''list'', ''--outdated''],
                                           Completed 0 so se)]\<rparr>
           in if candidates = []
              then (Inr (),
                    print (if rows = [] then ''> All packages are up to date.''
                           else ''> All packages listed in requirements.txt are up to date.'') w1)
              else confirm_and_upgrade proc venv candidates w1))"
proof (intro conjI impI)
  show "targeted_upgrades (requirements_packages lines) (drop 2 (py_split ''\<newline>'' (strip stdout)))
     = map (\<lambda>f. (f ! 0, f ! 1, f ! 2))
         (filter (\<lambda>f. length f = 4 \<and> lower (f ! 0) \<in> requirements_packages lines)
            (map split_ws (drop 2 (py_split ''\<newline>'' (strip stdout)))))"
    by (rule targeted_upgrades_filter)
  show "requirements_packages lines
       = {package_key g | g line. line \<in> set lines \<and> PACKAGE_REGEX_match line = Some g}"
    by (simp add: requirements_packages_def requirements_loop_set)
  show "requirements_packages lines
       = {lower (takeWhile name_char (dropWhile isspace line)) | line.
            line \<in> set lines \<and> takeWhile name_char (dropWhile isspace line) \<noteq> []}"
    by (rule requirements_packages_names)
next
  assume a: "lookup w [REQUIREMENTS_FILE] = Some (File content)
        \<and> proc [path_str venv, ''-m'', ''pip'', ''list'', ''--outdated''] (fs w)
             = (Completed 0 so se, fs1)"
  let ?ol = "py_split ''\<newline>'' (strip (universal_newlines so))"
  have e: "(length ?ol \<le> 2) = (drop 2 ?ol = [])" by simp
  have n: "drop 2 ?ol = [] \<Longrightarrow>
      targeted_upgrades (requirements_packages (readlines content)) (drop 2 ?ol) = []"
    by simp
  from a have "check_for_upgrades proc venv w =
           (let outdated_lines = ?ol;
                targeted = targeted_upgrades (requirements_packages (readlines content))
                             (drop 2 outdated_lines);
                w1 = w\<lparr>fs := fs1,
                       out := out w @ [''> Checking for package upgrades...'',
                                       ''>> Running command: '' @ path_str venv @ '' -m pip list --outdated''],
                       calls := calls w @ [([path_str venv, ''-m'', ''pip'', ''list'', ''--outdated''],
                                            Completed 0 so se)]\<rparr>
            in if length outdated_lines \<le> 2
               then (Inr (), print ''> All packages are up to date.'' w1)
               else if targeted = []
               then (Inr (), print ''> All packages listed in requirements.txt are up to date.'' w1)
               else confirm_and_upgrade proc venv targeted w1)"
    by (intro check_for_upgrades_listed) simp_all
  then show "check_for_upgrades proc venv w =
          (let rows = drop 2 ?ol;
               candidates =
                 map (\<lambda>f. (f ! 0, f ! 1, f ! 2))
                   (filter (\<lambda>f. length f = 4
                                 \<and> lower (f ! 0) \<in> requirements_packages (readlines content))
                      (map split_ws rows));
               w1 = w\<lparr>fs := fs1,
                      out := out w @ [''> Checking for package upgrades...'',
                                      ''>> Running command: '' @ path_str venv @ '' -m pip list --outdated''],
                      calls := calls w @ [([path_str venv, ''-m'', ''pip'', ''list'', ''--outdated''],
                                           Completed 0 so se)]\<rparr>
           in if candidates = []
              then (Inr (),
                    print (if rows = [] then ''> All packages are up to date.''
                           else ''> All packages listed in requirements.txt are up to date.'') w1)
              else confirm_and_upgrade proc venv candidates w1)"
    unfolding Let_def targeted_upgrades_filter [symmetric] e
    using n by (cases "drop 2 ?ol = []") simp_all
qed

theorem upgrade_candidates_filtered_witness:
  "lookup (extras_project []) [REQUIREMENTS_FILE]
     = Some (File ''  requests  # pinned above\<newline>Flask[async]>=2.0\<newline>'')
   \<and> sample_pip [path_str PYTHON_VENV_EXECUTABLE, ''-m'', ''pip'', ''list'', ''--outdated'']
         (fs (extras_project []))
       = (Completed 0
            ''Package Version Latest Type\<newline>------- ------- ------ -----\<newline>Flask   2.0.1   2.3.2  wheel\<newline>''
            [], fs (extras_project []))
   \<and> PACKAGE_REGEX_match ''Flask[async]>=2.0\<newline>'' = Some ''Flask[async]''
   \<and> package_key ''Flask[async]'' = ''flask''
   \<and> lower (takeWhile name_char (dropWhile isspace ''Flask[async]>=2.0\<newline>'')) = ''flask''
   \<and> requirements_packages (readlines ''  requests  # pinned above\<newline>Flask[async]>=2.0\<newline>'')
       = {''requests'', ''flask''}
   \<and> targeted_upgrades
        (requirements_packages
           [''Flask[async]>=2.0\<newline>'', ''# numpy\<newline>'', ''  requests  # pinned above\<newline>''])
        (drop 2 (py_split ''\<newline>'' (strip
           ''Package Version Latest Type\<newline>------- ------- ------ -----\<newline>Flask 2.0.1 2.3.2 wheel\<newline>broken row\<newline>numpy 1.0 2.0 wheel\<newline>REQUESTS 2.0 2.31.0 sdist\<newline>a b c d e\<newline>'')))
       = [(''Flask'', ''2.0.1'', ''2.3.2''), (''REQUESTS'', ''2.0'', ''2.31.0'')]
   \<and> check_for_upgrades sample_pip PYTHON_VENV_EXECUTABLE (extras_project [])
       = confirm_and_upgrade sample_pip PYTHON_VENV_EXECUTABLE [(''Flask'', ''2.0.1'', ''2.3.2'')]
           ((extras_project [])
              \<lparr>fs := fs (extras_project []),
               out := out (extras_project []) @
                  [''> Checking for package upgrades...'',
                   ''>> Running command: '' @ path_str PYTHON_VENV_EXECUTABLE @ '' -m pip list --outdated''],
               calls := calls (extras_project []) @
                  [([path_str PYTHON_VENV_EXECUTABLE, ''-m'', ''pip'', ''list'', ''--outdated''],
                    Completed 0
                      ''Package Version Latest Type\<newline>------- ------- ------ -----\<newline>Flask   2.0.1   2.3.2  wheel\<newline>''
                      [])]\<rparr>)"
proof -
  let ?so = "''Package Version Latest Type\<newline>------- ------- ------ -----\<newline>Flask   2.0.1   2.3.2  wheel\<newline>''"
  let ?content = "''  requests  # pinned above\<newline>Flask[async]>=2.0\<newline>''"
  let ?lines = "[''Flask[async]>=2.0\<newline>'', ''# numpy\<newline>'', ''  requests  # pinned above\<newline>'']"
  let ?table = "''Package Version Latest Type\<newline>------- ------- ------ -----\<newline>Flask 2.0.1 2.3.2 wheel\<newline>broken row\<newline>numpy 1.0 2.0 wheel\<newline>REQUESTS 2.0 2.31.0 sdist\<newline>a b c d e\<newline>''"
  let ?w = "extras_project []"
  let ?venv = PYTHON_VENV_EXECUTABLE
  have v: "path_str ?venv = ''venv/bin/python''" by code_simp
  have h1: "lookup ?w [REQUIREMENTS_FILE] = Some (File ?content)" by code_simp
  have h2: "sample_pip [path_str ?venv, ''-m'', ''pip'', ''list'', ''--outdated''] (fs ?w)
              = (Completed 0 ?so [], fs ?w)"
    by (simp add: v sample_pip_def)
  have k1: "PACKAGE_REGEX_match ''Flask[async]>=2.0\<newline>'' = Some ''Flask[async]''"
    by code_simp
  have k2: "package_key ''Flask[async]'' = ''flask''"
    by code_simp
  have k3: "lower (takeWhile name_char (dropWhile isspace ''Flask[async]>=2.0\<newline>'')) = ''flask''"
    by code_simp
  have k4: "requirements_packages (readlines ?content) = {''requests'', ''flask''}"
    by code_simp
  have c: "map (\<lambda>f. (f ! 0, f ! 1, f ! 2))
             (filter (\<lambda>f. length f = 4
                           \<and> lower (f ! 0) \<in> requirements_packages (readlines ?content))
                (map split_ws (drop 2 (py_split ''\<newline>'' (strip (universal_newlines ?so))))))
           = [(''Flask'', ''2.0.1'', ''2.3.2'')]"
    by code_simp
  have r: "map (\<lambda>f. (f ! 0, f ! 1, f ! 2))
         (filter (\<lambda>f. length f = 4 \<and> lower (f ! 0) \<in> requirements_packages ?lines)
            (map split_ws (drop 2 (py_split ''\<newline>'' (strip ?table)))))
       = [(''Flask'', ''2.0.1'', ''2.3.2''), (''REQUESTS'', ''2.0'', ''2.31.0'')]"
    by code_simp
  note t = upgrade_candidates_filtered [where w = ?w and proc = sample_pip and venv = ?venv
      and content = ?content and so = ?so and se = "[]" and ?fs1.0 = "fs ?w"
      and lines = ?lines and stdout = ?table]
  from t have "targeted_upgrades (requirements_packages ?lines)
        (drop 2 (py_split ''\<newline>'' (strip ?table)))
     = map (\<lambda>f. (f ! 0, f ! 1, f ! 2))
         (filter (\<lambda>f. length f = 4 \<and> lower (f ! 0) \<in> requirements_packages ?lines)
            (map split_ws (drop 2 (py_split ''\<newline>'' (strip ?table)))))"
    by blast
  with r have rows: "targeted_upgrades (requirements_packages ?lines)
        (drop 2 (py_split ''\<newline>'' (strip ?table)))
       = [(''Flask'', ''2.0.1'', ''2.3.2''), (''REQUESTS'', ''2.0'', ''2.31.0'')]"
    by simp
  from t h1 h2 have "check_for_upgrades sample_pip ?venv ?w =
          (let rows = drop 2 (py_split ''\<newline>'' (strip (universal_newlines ?so)));
               candidates =
                 map (\<lambda>f. (f ! 0, f ! 1, f ! 2))
                   (filter (\<lambda>f. length f = 4
                                 \<and> lower (f ! 0) \<in> requirements_packages (readlines ?content))
                      (map split_ws rows));
               w1 = ?w\<lparr>fs := fs ?w,
                      out := out ?w @ [''> Checking for package upgrades...'',
                                      ''>> Running command: '' @ path_str ?venv @ '' -m pip list --outdated''],
                      calls := calls ?w @ [([path_str ?venv, ''-m'', ''pip'', ''list'', ''--outdated''],
                                           Completed 0 ?so [])]\<rparr>
           in if candidates = []
              then (Inr (),
                    print (if rows = [] then ''> All packages are up to date.''
                           else ''> All packages listed in requirements.txt are up to date.'') w1)
              else confirm_and_upgrade sample_pip ?venv candidates w1)"
    by blast
  then have "check_for_upgrades sample_pip ?venv ?w
       = confirm_and_upgrade sample_pip ?venv [(''Flask'', ''2.0.1'', ''2.3.2'')]
           (?w\<lparr>fs := fs ?w,
               out := out ?w @ [''> Checking for package upgrades...'',
                   ''>> Running command: '' @ path_str ?venv @ '' -m pip list --outdated''],
               calls := calls ?w @ [([path_str ?venv, ''-m'', ''pip'', ''list'', ''--outdated''],
                    Completed 0 ?so [])]\<rparr>)"
    unfolding Let_def c by simp
  with h1 h2 k1 k2 k3 k4 rows show ?thesis by blast
qed

lemma count_list_map_none:
  "(\<And>x. x \<in> set xs \<Longrightarrow> f x \<noteq> y) \<Longrightarrow> count_list (map f xs) y = 0"
  by (induction xs) auto

lemma listing_not_prompt: "count_list (upgrade_listing targeted) upgrade_prompt = 0"
proof -
  have "count_list (map (\<lambda>(pkg, current, latest).
                  ''>>   - '' @ pkg @ '': '' @ current @ '' -> '' @ latest) targeted)
     upgrade_prompt = 0"
    by (rule count_list_map_none) (auto simp: upgrade_prompt_def)
  then show ?thesis
    by (simp add: upgrade_listing_def) (simp add: upgrade_prompt_def)
qed

lemma run_command_prompt_count:
  "count_list (out (snd (run_command proc command capture w))) upgrade_prompt
     = count_list (out w) upgrade_prompt"
  by (auto simp: run_command_def print_def prints_def Let_def upgrade_prompt_def
      split: prod.splits proc_result.splits)

lemma confirm_and_upgrade_eof:
  assumes "stdin w = []"
  shows "fst (confirm_and_upgrade proc venv targeted w) = Inr ()"
    and "calls (snd (confirm_and_upgrade proc venv targeted w)) = calls w"
    and "stdin (snd (confirm_and_upgrade proc venv targeted w)) = []"
    and "fs (snd (confirm_and_upgrade proc venv targeted w)) = fs w"
  using assms
  by (simp_all add: confirm_and_upgrade_def input_def print_def prints_def Let_def)

lemma confirm_and_upgrade_no:
  assumes "stdin w = typed # rest" and "strip (lower typed) \<noteq> ''y''"
  shows "fst (confirm_and_upgrade proc venv targeted w) = Inr ()"
    and "calls (snd (confirm_and_upgrade proc venv targeted w)) = calls w"
    and "stdin (snd (confirm_and_upgrade proc venv targeted w)) = rest"
    and "fs (snd (confirm_and_upgrade proc venv targeted w)) = fs w"
  using assms
  by (simp_all add: confirm_and_upgrade_def input_def print_def prints_def Let_def)

lemma confirm_and_upgrade_yes:
  assumes "stdin w = typed # rest" and "strip (lower typed) = ''y''"
  shows "calls (snd (confirm_and_upgrade proc venv targeted w))
           = calls w @ [([path_str venv, ''-m'', ''pip'', ''install'', ''--upgrade''] @ map fst targeted,
                         fst (proc ([path_str venv, ''-m'', ''pip'', ''install'', ''--upgrade'']
                                    @ map fst targeted) (fs w)))]"
    and "stdin (snd (confirm_and_upgrade proc venv targeted w)) = rest"
    and "fst (confirm_and_upgrade proc venv targeted w) =
           (if failed (fst (proc ([path_str venv, ''-m'', ''pip'', ''install'', ''--upgrade'']
                                    @ map fst targeted) (fs w)))
            then Inl (SystemExit 1) else Inr ())"
proof -
  let ?w1 = "prints (upgrade_listing targeted) w"
  let ?w2 = "(print upgrade_prompt ?w1)\<lparr>stdin := rest\<rparr>"
  let ?cmd = "[path_str venv, ''-m'', ''pip'', ''install'', ''--upgrade''] @ map fst targeted"
  have i: "input upgrade_prompt ?w1 = (Inr typed, ?w2)"
    using assms(1) by (simp add: input_def print_def prints_def Let_def)
  have c: "confirm_and_upgrade proc venv targeted w =
      (case run_command proc ?cmd False ?w2 of
         (Inl e, w3) \<Rightarrow> (Inl e, w3)
       | (Inr r', w3) \<Rightarrow> (Inr (), print ''> Packages upgraded successfully.'' w3))"
    using assms(2) by (simp add: confirm_and_upgrade_def i Let_def)
  have w2: "calls ?w2 = calls w" "stdin ?w2 = rest" "fs ?w2 = fs w"
    by (simp_all add: print_def prints_def)
  show "calls (snd (confirm_and_upgrade proc venv targeted w))
           = calls w @ [(?cmd, fst (proc ?cmd (fs w)))]"
    unfolding c
    by (cases rule: run_command_cases [of proc ?cmd False ?w2])
      (simp_all add: print_def prints_def)
  show "stdin (snd (confirm_and_upgrade proc venv targeted w)) = rest"
    unfolding c
    by (cases rule: run_command_cases [of proc ?cmd False ?w2])
      (simp_all add: print_def prints_def)
  show "fst (confirm_and_upgrade proc venv targeted w) =
           (if failed (fst (proc ?cmd (fs w))) then Inl (SystemExit 1) else Inr ())"
    unfolding c
    by (cases rule: run_command_cases [of proc ?cmd False ?w2])
      (simp_all add: print_def prints_def)
qed

lemma confirm_and_upgrade_prompts_once:
  "count_list (out (snd (confirm_and_upgrade proc venv targeted w))) upgrade_prompt
     = count_list (out w) upgrade_prompt + 1"
proof -
  let ?w1 = "prints (upgrade_listing targeted) w"
  let ?cmd = "[path_str venv, ''-m'', ''pip'', ''install'', ''--upgrade''] @ map fst targeted"
  have w1: "count_list (out ?w1) upgrade_prompt = count_list (out w) upgrade_prompt"
    using listing_not_prompt [of targeted] by (simp add: prints_def)
  obtain r w2 where i: "input upgrade_prompt ?w1 = (r, w2)"
    by (cases "input upgrade_prompt ?w1")
  then have w2: "count_list (out w2) upgrade_prompt = count_list (out w) upgrade_prompt + 1"
    using w1 by (auto simp: input_def print_def Let_def split: list.splits)
  have np: "''> No packages were upgraded.'' \<noteq> upgrade_prompt"
    "''> Packages upgraded successfully.'' \<noteq> upgrade_prompt"
    by (simp_all add: upgrade_prompt_def)
  from run_command_prompt_count [of proc ?cmd False w2]
  show ?thesis
    using i w2 np
    by (auto simp: confirm_and_upgrade_def Let_def print_def split: prod.splits sum.splits)
qed

text \<open>
  Claim C7. With a manifest, a successful outdated list and at least one candidate, the
  checker prompts exactly once and reads at most one line. At the end of the input stream
  the answer is no: the checker returns and no further command runs. An answer that is
  \<open>y\<close> once lowercased and stripped (the yes of the prompt's \<open>y/n\<close>) runs exactly one more
  command, the upgrade of exactly the candidates' names as the outdated list spells them.
  Any other answer runs no further command.
\<close>

theorem upgrade_confirmation:
  assumes "lookup w [REQUIREMENTS_FILE] = Some (File content)"
    and "proc [path_str venv, ''-m'', ''pip'', ''list'', ''--outdated''] (fs w)
           = (Completed 0 so se, fs1)"
    and "targeted_upgrades (requirements_packages (readlines content))
           (drop 2 (py_split ''\<newline>'' (strip (universal_newlines so)))) = cands"
    and "cands \<noteq> []"
  shows "count_list (out (snd (check_for_upgrades proc venv w))) upgrade_prompt
           = count_list (out w) upgrade_prompt + 1
     \<and> stdin (snd (check_for_upgrades proc venv w)) = drop 1 (stdin w)
     \<and> (stdin w = [] \<longrightarrow>
           fst (check_for_upgrades proc venv w) = Inr ()
           \<and> calls (snd (check_for_upgrades proc venv w))
               = calls w @ [([path_str venv, ''-m'', ''pip'', ''list'', ''--outdated''],
                             Completed 0 so se)])
     \<and> (\<forall>typed rest. stdin w = typed # rest \<and> strip (lower typed) = ''y'' \<longrightarrow>
           calls (snd (check_for_upgrades proc venv w))
             = calls w @ [([path_str venv, ''-m'', ''pip'', ''list'', ''--outdated''],
                           Completed 0 so se),
                          ([path_str venv, ''-m'', ''pip'', ''install'', ''--upgrade''] @ map fst cands,
                           fst (proc ([path_str venv, ''-m'', ''pip'', ''install'', ''--upgrade'']
                                      @ map fst cands) fs1))])
     \<and> (\<forall>typed rest. stdin w = typed # rest \<and> strip (lower typed) \<noteq> ''y'' \<longrightarrow>
           fst (check_for_upgrades proc venv w) = Inr ()
           \<and> calls (snd (check_for_upgrades proc venv w))
               = calls w @ [([path_str venv, ''-m'', ''pip'', ''list'', ''--outdated''],
                             Completed 0 so se)])"
proof -
  let ?listed = "([path_str venv, ''-m'', ''pip'', ''list'', ''--outdated''], Completed 0 so se)"
  let ?w1 = "w\<lparr>fs := fs1,
                out := out w @ [''> Checking for package upgrades...'',
                                ''>> Running command: '' @ path_str venv @ '' -m pip list --outdated''],
                calls := calls w @ [?listed]\<rparr>"
  have c: "check_for_upgrades proc venv w = confirm_and_upgrade proc venv cands ?w1"
    using assms by (rule check_for_upgrades_candidates)
  have w1: "stdin ?w1 = stdin w" "calls ?w1 = calls w @ [?listed]" "fs ?w1 = fs1"
    by simp_all
  have o1: "count_list (out ?w1) upgrade_prompt = count_list (out w) upgrade_prompt"
    by (simp add: upgrade_prompt_def)
  have p: "count_list (out (snd (check_for_upgrades proc venv w))) upgrade_prompt
           = count_list (out w) upgrade_prompt + 1"
    unfolding c using confirm_and_upgrade_prompts_once [of proc venv cands ?w1] o1 by simp
  have s: "stdin (snd (check_for_upgrades proc venv w)) = drop 1 (stdin w)"
  proof (cases "stdin w")
    case Nil
    then show ?thesis
      unfolding c using confirm_and_upgrade_eof(3) [of ?w1 proc venv cands] by simp
  next
    case (Cons typed rest)
    show ?thesis
    proof (cases "strip (lower typed) = ''y''")
      case True
      then show ?thesis
        unfolding c using confirm_and_upgrade_yes(2) [of ?w1 typed rest proc venv cands] Cons
        by simp
    next
      case False
      then show ?thesis
        unfolding c using confirm_and_upgrade_no(3) [of ?w1 typed rest proc venv cands] Cons
        by simp
    qed
  qed
  have e: "stdin w = [] \<longrightarrow>
           fst (check_for_upgrades proc venv w) = Inr ()
           \<and> calls (snd (check_for_upgrades proc venv w)) = calls w @ [?listed]"
    unfolding c
    using confirm_and_upgrade_eof(1,2) [of ?w1 proc venv cands] by simp
  have y: "\<forall>typed rest. stdin w = typed # rest \<and> strip (lower typed) = ''y'' \<longrightarrow>
           calls (snd (check_for_upgrades proc venv w))
             = calls w @ [?listed,
                          ([path_str venv, ''-m'', ''pip'', ''install'', ''--upgrade''] @ map fst cands,
                           fst (proc ([path_str venv, ''-m'', ''pip'', ''install'', ''--upgrade'']
                                      @ map fst cands) fs1))]"
  proof (intro allI impI)
    fix typed rest
    assume a: "stdin w = typed # rest \<and> strip (lower typed) = ''y''"
    then have "stdin ?w1 = typed # rest" "strip (lower typed) = ''y''" by simp_all
    from confirm_and_upgrade_yes(1) [OF this, of proc venv cands]
    show "calls (snd (check_for_upgrades proc venv w))
             = calls w @ [?listed,
                          ([path_str venv, ''-m'', ''pip'', ''install'', ''--upgrade''] @ map fst cands,
                           fst (proc ([path_str venv, ''-m'', ''pip'', ''install'', ''--upgrade'']
                                      @ map fst cands) fs1))]"
      unfolding c by simp
  qed
  have n: "\<forall>typed rest. stdin w = typed # rest \<and> strip (lower typed) \<noteq> ''y'' \<longrightarrow>
           fst (check_for_upgrades proc venv w) = Inr ()
           \<and> calls (snd (check_for_upgrades proc venv w)) = calls w @ [?listed]"
  proof (intro allI impI)
    fix typed rest
    assume a: "stdin w = typed # rest \<and> strip (lower typed) \<noteq> ''y''"
    then have "stdin ?w1 = typed # rest" "strip (lower typed) \<noteq> ''y''" by simp_all
    from confirm_and_upgrade_no(1,2) [OF this, of proc venv cands]
    show "fst (check_for_upgrades proc venv w) = Inr ()
           \<and> calls (snd (check_for_upgrades proc venv w)) = calls w @ [?listed]"
      unfolding c by simp
  qed
  from p s e y n show ?thesis by blast
qed

theorem upgrade_confirmation_witness:
  "lookup (flask_project [''Y '']) [REQUIREMENTS_FILE] = Some (File ''flask\<newline>'')
   \<and> targeted_upgrades (requirements_packages (readlines ''flask\<newline>''))
        (drop 2 (py_split ''\<newline>'' (strip (universal_newlines
           ''Package Version Latest Type\<newline>------- ------- ------ -----\<newline>Flask   2.0.1   2.3.2  wheel\<newline>''))))
       = [(''Flask'', ''2.0.1'', ''2.3.2'')]
   \<and> strip (lower ''Y '') = ''y''
   \<and> calls (snd (check_for_upgrades sample_pip PYTHON_VENV_EXECUTABLE (flask_project [''Y ''])))
       = [([''venv/bin/python'', ''-m'', ''pip'', ''list'', ''--outdated''],
           Completed 0
             ''Package Version Latest Type\<newline>------- ------- ------ -----\<newline>Flask   2.0.1   2.3.2  wheel\<newline>''
             []),
          ([''venv/bin/python'', ''-m'', ''pip'', ''install'', ''--upgrade'', ''Flask''],
           Completed 0 [] [])]
   \<and> stdin (snd (check_for_upgrades sample_pip PYTHON_VENV_EXECUTABLE (flask_project [''Y '']))) = []
   \<and> count_list (out (snd (check_for_upgrades sample_pip PYTHON_VENV_EXECUTABLE (flask_project [''Y ''])))) upgrade_prompt = 1"
proof -
  let ?so = "''Package Version Latest Type\<newline>------- ------- ------ -----\<newline>Flask   2.0.1   2.3.2  wheel\<newline>''"
  let ?w = "flask_project [''Y '']"
  let ?venv = PYTHON_VENV_EXECUTABLE
  have v: "path_str ?venv = ''venv/bin/python''" by code_simp
  have h1: "lookup ?w [REQUIREMENTS_FILE] = Some (File ''flask\<newline>'')" by code_simp
  have h2: "sample_pip [path_str ?venv, ''-m'', ''pip'', ''list'', ''--outdated''] (fs ?w)
              = (Completed 0 ?so [], fs ?w)"
    by (simp add: v sample_pip_def)
  have h3: "targeted_upgrades (requirements_packages (readlines ''flask\<newline>''))
        (drop 2 (py_split ''\<newline>'' (strip (universal_newlines ?so))))
       = [(''Flask'', ''2.0.1'', ''2.3.2'')]"
    by code_simp
  have h4: "[(''Flask'', ''2.0.1'', ''2.3.2'')] \<noteq> ([] :: (string \<times> string \<times> string) list)"
    by simp
  have y: "strip (lower ''Y '') = ''y''" by code_simp
  have i: "stdin ?w = ''Y '' # []" "calls ?w = []" "out ?w = []"
    by (simp_all add: flask_project_def)
  note t = upgrade_confirmation [where w = ?w and proc = sample_pip and venv = ?venv
      and content = "''flask\<newline>''" and so = ?so and se = "[]" and ?fs1.0 = "fs ?w"
      and cands = "[(''Flask'', ''2.0.1'', ''2.3.2'')]", OF h1 h2 h3 h4]
  from t i y have c: "calls (snd (check_for_upgrades sample_pip ?venv ?w))
       = [([path_str ?venv, ''-m'', ''pip'', ''list'', ''--outdated''], Completed 0 ?so []),
          ([path_str ?venv, ''-m'', ''pip'', ''install'', ''--upgrade'']
             @ map fst [(''Flask'', ''2.0.1'', ''2.3.2'')],
           fst (sample_pip ([path_str ?venv, ''-m'', ''pip'', ''install'', ''--upgrade'']
                  @ map fst [(''Flask'', ''2.0.1'', ''2.3.2'')]) (fs ?w)))]"
    by simp
  have c': "calls (snd (check_for_upgrades sample_pip ?venv ?w))
       = [([''venv/bin/python'', ''-m'', ''pip'', ''list'', ''--outdated''], Completed 0 ?so []),
          ([''venv/bin/python'', ''-m'', ''pip'', ''install'', ''--upgrade'', ''Flask''],
           Completed 0 [] [])]"
    unfolding c by (simp add: v sample_pip_def)
  from t i have s: "stdin (snd (check_for_upgrades sample_pip ?venv ?w)) = []"
    by simp
  from t i have p: "count_list (out (snd (check_for_upgrades sample_pip ?venv ?w))) upgrade_prompt = 1"
    by simp
  from h1 h3 y c' s p show ?thesis by blast
qed

section \<open>The pinning stage\<close>

subsection \<open>The entries of the installed-package map\<close>

lemma split_first_append:
  "split_first sep s = Some (a, b) \<Longrightarrow> s = a @ sep @ b"
proof (induction s arbitrary: a)
  case Nil
  then show ?case by simp
next
  case (Cons c cs)
  show ?case
  proof (cases "prefix sep (c # cs)")
    case True
    with Cons.prems have ab: "a = []" "b = drop (length sep) (c # cs)" by simp_all
    from True obtain r where r: "c # cs = sep @ r" by (auto simp: prefix_def)
    then have "drop (length sep) (c # cs) = r" by simp
    with ab r show ?thesis by simp
  next
    case False
    with Cons.prems obtain a' where "split_first sep cs = Some (a', b)" "a = c # a'"
      by (auto split: option.splits)
    with Cons.IH [of a'] show ?thesis by simp
  qed
qed

lemma str_in_split_first:
  "str_in sep s \<Longrightarrow> sep \<noteq> [] \<Longrightarrow> \<exists>a b. split_first sep s = Some (a, b)"
  by (induction s) (auto split: option.splits)

lemma hd_py_split:
  assumes "str_in sep s" and "sep \<noteq> []"
  shows "\<exists>b. s = hd (py_split sep s) @ sep @ b"
proof -
  from str_in_split_first [OF assms] obtain a b where sf: "split_first sep s = Some (a, b)"
    by blast
  then have "hd (py_split sep s) = a"
    using assms(2) by (subst py_split.simps) simp
  moreover from split_first_append [OF sf] have "s = a @ sep @ b" .
  ultimately have "s = hd (py_split sep s) @ sep @ b" by simp
  then show ?thesis ..
qed

text \<open>
  Every entry of the installed-package map is a specifier \<open>name==version\<close> under the key
  \<open>name\<close> in lower case.
\<close>

definition entry_ok :: "string \<Rightarrow> string \<Rightarrow> bool" where
  "entry_ok k v = (\<exists>name version. v = name @ ''=='' @ version \<and> name \<noteq> [] \<and> lower name = k)"

lemma installed_loop_entries:
  assumes "\<And>k v. m k = Some v \<Longrightarrow> entry_ok k v"
    and "installed_loop m lines k = Some v"
  shows "entry_ok k v"
  using assms
proof (induction lines arbitrary: m)
  case Nil
  then show ?case by simp
next
  case (Cons line rest)
  let ?name = "hd (py_split ''=='' (strip line))"
  let ?m' = "m(lower ?name \<mapsto> strip line)"
  show ?case
  proof (cases "str_in ''=='' (strip line) \<and> ?name \<noteq> []")
    case True
    then have "installed_loop ?m' rest k = Some v"
      using Cons.prems(2) by (simp add: Let_def)
    moreover have "\<And>k v. ?m' k = Some v \<Longrightarrow> entry_ok k v"
    proof -
      fix k v
      assume kv: "?m' k = Some v"
      show "entry_ok k v"
      proof (cases "k = lower ?name")
        case k: True
        with kv have v: "v = strip line" by simp
        from True hd_py_split [of "''==''" "strip line"] obtain b where
          "strip line = ?name @ ''=='' @ b"
          by auto
        with v k True show ?thesis unfolding entry_ok_def by blast
      next
        case False
        with kv Cons.prems(1) show ?thesis by simp
      qed
    qed
    ultimately show ?thesis
      using Cons.IH [of ?m'] by blast
  next
    case False
    then have "installed_loop m rest k = Some v"
      using Cons.prems(2) by (auto simp: Let_def split: if_splits)
    then show ?thesis
      using Cons.IH [of m] Cons.prems(1) by blast
  qed
qed

lemma installed_packages_entry:
  "installed_packages stdout k = Some v \<Longrightarrow>
     \<exists>name version. v = name @ ''=='' @ version \<and> name \<noteq> [] \<and> lower name = k"
proof -
  assume "installed_packages stdout k = Some v"
  then have "entry_ok k v"
    unfolding installed_packages_def
    by (rule installed_loop_entries [rotated]) simp
  then show ?thesis by (simp add: entry_ok_def)
qed

lemma needs_pinning_line:
  "l \<in> set ls \<Longrightarrow> is_unpinned l \<Longrightarrow> needs_pinning ls"
  by (induction ls) auto

subsection \<open>The files after the stage\<close>

lemma pin_dependencies_files:
  assumes p: "proc [path_str venv, ''-m'', ''pip'', ''freeze''] (fs w) = (Completed 0 raw se, fs1)"
  shows "fst (pin_dependencies proc venv w) =
           (case lookup w [REQUIREMENTS_FILE] of
              None \<Rightarrow> Inr ()
            | Some Dir \<Rightarrow> Inl (is_a_directory [REQUIREMENTS_FILE])
            | Some (File content) \<Rightarrow>
                if needs_pinning (readlines content) \<and> map_of fs1 [REQUIREMENTS_FILE] = Some Dir
                then Inl (is_a_directory [REQUIREMENTS_FILE])
                else Inr ())
     \<and> fs (snd (pin_dependencies proc venv w)) =
         (case lookup w [REQUIREMENTS_FILE] of
            Some (File content) \<Rightarrow>
              if needs_pinning (readlines content)
              then (if map_of fs1 [REQUIREMENTS_FILE] = Some Dir then fs1
                    else AList.update [REQUIREMENTS_FILE]
                           (File (writelines (pin_lines (installed_packages (universal_newlines raw))
                              (readlines content)))) fs1)
              else fs w
          | _ \<Rightarrow> fs w)"
proof -
  let ?w0 = "print ''> Checking for unpinned dependencies in requirements.txt...'' w"
  let ?w1 = "print ''> Unpinned dependencies found. Generating pinned versions...'' ?w0"
  let ?cmd = "[path_str venv, ''-m'', ''pip'', ''freeze'']"
  show ?thesis
  proof (cases "lookup w [REQUIREMENTS_FILE]")
    case None
    then show ?thesis by (simp add: pin_dependencies_missing)
  next
    case (Some n)
    show ?thesis
    proof (cases n)
      case Dir
      with Some have "open_read ?w0 [REQUIREMENTS_FILE] = Inl (is_a_directory [REQUIREMENTS_FILE])"
        by (simp add: open_read_def lookup_def print_def)
      then show ?thesis
        using Some Dir
        by (simp add: pin_dependencies_def Let_def is_a_directory_def) (simp add: print_def)
    next
      case (File content)
      with Some have f0: "open_read ?w0 [REQUIREMENTS_FILE] = Inr content"
        by (simp add: open_read_def lookup_def print_def)
      show ?thesis
      proof (cases "needs_pinning (readlines content)")
        case False
        then show ?thesis
          using Some File by (simp add: pin_dependencies_def Let_def f0) (simp add: print_def)
      next
        case True
        obtain w2 where rc: "run_command proc ?cmd True ?w1 = (Inr (Some (universal_newlines raw)), w2)"
          and w2: "fs w2 = fs1"
          using p by (simp add: run_command_ok failed_def print_def)
        obtain new_lines printed where pl:
          "pin_loop (installed_packages (universal_newlines raw)) (readlines content)
             = (new_lines, printed)"
          by (cases "pin_loop (installed_packages (universal_newlines raw)) (readlines content)")
        then have nl: "new_lines = pin_lines (installed_packages (universal_newlines raw)) (readlines content)"
          by (simp add: pin_lines_def)
        let ?w3 = "prints printed w2"
        show ?thesis
        proof (cases "map_of fs1 [REQUIREMENTS_FILE] = Some Dir")
          case d: True
          then have "open_write [REQUIREMENTS_FILE] ?w3 = Inl (is_a_directory [REQUIREMENTS_FILE])"
            using w2 by (simp add: open_write_def lookup_def prints_def)
          then show ?thesis
            using Some File True d
            by (simp add: pin_dependencies_def Let_def f0 rc pl) (simp add: prints_def w2)
        next
          case d: False
          then have "open_write [REQUIREMENTS_FILE] ?w3
              = Inr (?w3\<lparr>fs := AList.update [REQUIREMENTS_FILE] (File []) (fs ?w3)\<rparr>)"
            using w2
            by (auto simp: open_write_def lookup_def prints_def split: option.splits node.splits)
          then show ?thesis
            using Some File True d
            by (simp add: pin_dependencies_def Let_def f0 rc pl nl)
              (simp add: print_def prints_def write_text_def w2 update_last)
        qed
      qed
    qed
  qed
qed

subsection \<open>Rewriting a found dependency\<close>

text \<open>
  Claim C3. The pinning stage reads the root manifest, builds the installed-package map
  from the output of the freeze command, and writes the manifest back. For an unpinned
  line of the manifest whose key (the matched name, lowercased, without extras: the
  leading run of name characters in lower case) is in that map, the stage returns and
  the line at the same position of the written manifest is the mapped specifier and a
  line ending; the mapped specifier is \<open>name==version\<close> for a name that is the key when
  lowercased. When the line has a \<open>#\<close>, the text after the first one, stripped of the
  whitespace around it (the line ending of the original line included), is put back
  after two spaces, \<open>#\<close> and a space. The line \<open>  requests  # pinned above\<close>, with or
  without its line ending, becomes \<open>requests==2.31.0  # pinned above\<close> and a line ending
  under the map from \<open>requests\<close> to \<open>requests==2.31.0\<close>, and so it does in a run of the
  stage on a manifest that holds it.
\<close>

theorem pin_found_rewrites:
  assumes "lookup w [REQUIREMENTS_FILE] = Some (File content)"
    and "proc [path_str venv, ''-m'', ''pip'', ''freeze''] (fs w) = (Completed 0 raw se, fs1)"
    and "map_of fs1 [REQUIREMENTS_FILE] \<noteq> Some Dir"
    and "i < length (readlines content)"
    and "PACKAGE_REGEX_match (readlines content ! i) = Some g"
    and "\<not> str_in ''=='' (readlines content ! i)"
    and "installed_packages (universal_newlines raw) (package_key g) = Some pinned_version"
  shows "(\<exists>written.
        fst (pin_dependencies proc venv w) = Inr ()
      \<and> lookup (snd (pin_dependencies proc venv w)) [REQUIREMENTS_FILE] = Some (File written)
      \<and> length (readlines written) = length (readlines content)
      \<and> (\<not> str_in ''#'' (readlines content ! i) \<longrightarrow>
           readlines written ! i = pinned_version @ ''\<newline>'')
      \<and> (\<forall>a b. readlines content ! i = a @ ''#'' @ b \<and> \<not> str_in ''#'' a \<longrightarrow>
           readlines written ! i = pinned_version @ ''  # '' @ strip b @ ''\<newline>''))
     \<and> package_key g = lower (takeWhile name_char (dropWhile isspace (readlines content ! i)))
     \<and> (\<exists>name version. pinned_version = name @ ''=='' @ version \<and> name \<noteq> []
           \<and> lower name = package_key g)
     \<and> pin_lines [''requests'' \<mapsto> ''requests==2.31.0''] [''  requests  # pinned above'']
          = [''requests==2.31.0  # pinned above'' @ ''\<newline>'']
     \<and> pin_lines [''requests'' \<mapsto> ''requests==2.31.0''] [''  requests  # pinned above\<newline>'']
          = [''requests==2.31.0  # pinned above'' @ ''\<newline>'']
     \<and> lookup (snd (pin_dependencies sample_pip PYTHON_VENV_EXECUTABLE (extras_project [])))
          [REQUIREMENTS_FILE]
          = Some (File (''requests==2.31.0  # pinned above'' @ ''\<newline>'' @ ''Flask==2.0.1'' @ ''\<newline>''))"
proof (intro conjI)
  let ?m = "installed_packages (universal_newlines raw)"
  let ?ls = "readlines content"
  let ?written = "writelines (pin_lines ?m ?ls)"
  have u: "is_unpinned (?ls ! i)"
    using assms(5,6) by (simp add: is_unpinned_def)
  then have np: "needs_pinning ?ls"
    using assms(4) needs_pinning_line [of "?ls ! i" ?ls] by simp
  note files = pin_dependencies_files [where proc = proc and venv = venv and w = w
      and raw = raw and se = se and ?fs1.0 = fs1, OF assms(2)]
  have r: "fst (pin_dependencies proc venv w) = Inr ()"
    using files assms(1,3) np by simp
  have "fs (snd (pin_dependencies proc venv w))
      = AList.update [REQUIREMENTS_FILE] (File ?written) fs1"
    using files assms(1,3) np by simp
  then have l: "lookup (snd (pin_dependencies proc venv w)) [REQUIREMENTS_FILE] = Some (File ?written)"
    by (simp add: lookup_def update_conv')
  have rl: "readlines ?written = pin_lines ?m ?ls"
    using pin_text_idem [of raw content] unfolding Let_def by blast
  then have len: "length (readlines ?written) = length ?ls"
    by (simp add: pin_lines_map)
  have at: "readlines ?written ! i = pin_line ?m (?ls ! i)"
    using rl assms(4) by (simp add: pin_lines_map)
  have plain: "\<not> str_in ''#'' (?ls ! i) \<longrightarrow> readlines ?written ! i = pinned_version @ ''\<newline>''"
    using at assms(5,6,7) by (simp add: pin_line_found)
  have comment: "\<forall>a b. ?ls ! i = a @ ''#'' @ b \<and> \<not> str_in ''#'' a \<longrightarrow>
           readlines ?written ! i = pinned_version @ ''  # '' @ strip b @ ''\<newline>''"
  proof (intro allI impI)
    fix a b
    assume ab: "?ls ! i = a @ ''#'' @ b \<and> \<not> str_in ''#'' a"
    then have "str_in ''#'' (?ls ! i)" and "CHR ''#'' \<notin> set a"
      by (simp_all add: str_in_char)
    then show "readlines ?written ! i = pinned_version @ ''  # '' @ strip b @ ''\<newline>''"
      using at assms(5,6,7) ab max1_after_hash [of a b] by (simp add: pin_line_found)
  qed
  from r l len plain comment
  show "\<exists>written.
        fst (pin_dependencies proc venv w) = Inr ()
      \<and> lookup (snd (pin_dependencies proc venv w)) [REQUIREMENTS_FILE] = Some (File written)
      \<and> length (readlines written) = length (readlines content)
      \<and> (\<not> str_in ''#'' (readlines content ! i) \<longrightarrow>
           readlines written ! i = pinned_version @ ''\<newline>'')
      \<and> (\<forall>a b. readlines content ! i = a @ ''#'' @ b \<and> \<not> str_in ''#'' a \<longrightarrow>
           readlines written ! i = pinned_version @ ''  # '' @ strip b @ ''\<newline>'')"
    by blast
next
  show "package_key g = lower (takeWhile name_char (dropWhile isspace (readlines content ! i)))"
    using assms(5) by (rule package_key_match)
next
  show "\<exists>name version. pinned_version = name @ ''=='' @ version \<and> name \<noteq> []
           \<and> lower name = package_key g"
    using assms(7) by (rule installed_packages_entry)
next
  show "pin_lines [''requests'' \<mapsto> ''requests==2.31.0''] [''  requests  # pinned above'']
          = [''requests==2.31.0  # pinned above'' @ ''\<newline>'']"
    by code_simp
next
  show "pin_lines [''requests'' \<mapsto> ''requests==2.31.0''] [''  requests  # pinned above\<newline>'']
          = [''requests==2.31.0  # pinned above'' @ ''\<newline>'']"
    by code_simp
next
  show "lookup (snd (pin_dependencies sample_pip PYTHON_VENV_EXECUTABLE (extras_project [])))
          [REQUIREMENTS_FILE]
          = Some (File (''requests==2.31.0  # pinned above'' @ ''\<newline>'' @ ''Flask==2.0.1'' @ ''\<newline>''))"
    by code_simp
qed

theorem pin_found_rewrites_witness:
  "lookup (extras_project []) [REQUIREMENTS_FILE]
     = Some (File ''  requests  # pinned above\<newline>Flask[async]>=2.0\<newline>'')
   \<and> sample_pip [path_str PYTHON_VENV_EXECUTABLE, ''-m'', ''pip'', ''freeze''] (fs (extras_project []))
       = (Completed 0 ''Flask==2.0.1\<newline>requests==2.31.0\<newline>'' [], fs (extras_project []))
   \<and> map_of (fs (extras_project [])) [REQUIREMENTS_FILE] \<noteq> Some Dir
   \<and> readlines ''  requests  # pinned above\<newline>Flask[async]>=2.0\<newline>''
       = [''  requests  # pinned above\<newline>'', ''Flask[async]>=2.0\<newline>'']
   \<and> PACKAGE_REGEX_match ''  requests  # pinned above\<newline>'' = Some ''requests''
   \<and> \<not> str_in ''=='' ''  requests  # pinned above\<newline>''
   \<and> installed_packages (universal_newlines ''Flask==2.0.1\<newline>requests==2.31.0\<newline>'')
         (package_key ''requests'') = Some ''requests==2.31.0''
   \<and> PACKAGE_REGEX_match ''Flask[async]>=2.0\<newline>'' = Some ''Flask[async]''
   \<and> \<not> str_in ''=='' ''Flask[async]>=2.0\<newline>''
   \<and> \<not> str_in ''#'' ''Flask[async]>=2.0\<newline>''
   \<and> package_key ''Flask[async]'' = ''flask''
   \<and> installed_packages (universal_newlines ''Flask==2.0.1\<newline>requests==2.31.0\<newline>'')
         (package_key ''Flask[async]'') = Some ''Flask==2.0.1''
   \<and> fst (pin_dependencies sample_pip PYTHON_VENV_EXECUTABLE (extras_project [])) = Inr ()
   \<and> (\<exists>written.
         lookup (snd (pin_dependencies sample_pip PYTHON_VENV_EXECUTABLE (extras_project [])))
           [REQUIREMENTS_FILE] = Some (File written)
         \<and> length (readlines written) = 2
         \<and> readlines written ! 0 = ''requests==2.31.0  # pinned above\<newline>''
         \<and> readlines written ! 1 = ''Flask==2.0.1\<newline>'')"
proof -
  let ?content = "''  requests  # pinned above\<newline>Flask[async]>=2.0\<newline>''"
  let ?raw = "''Flask==2.0.1\<newline>requests==2.31.0\<newline>''"
  let ?w = "extras_project []"
  let ?venv = PYTHON_VENV_EXECUTABLE
  let ?l0 = "''  requests  # pinned above\<newline>''"
  let ?l1 = "''Flask[async]>=2.0\<newline>''"
  have v: "path_str ?venv = ''venv/bin/python''" by code_simp
  have h1: "lookup ?w [REQUIREMENTS_FILE] = Some (File ?content)" by code_simp
  have h2: "sample_pip [path_str ?venv, ''-m'', ''pip'', ''freeze''] (fs ?w)
      = (Completed 0 ?raw [], fs ?w)"
    by (simp add: v sample_pip_def)
  have h3: "map_of (fs ?w) [REQUIREMENTS_FILE] \<noteq> Some Dir" by code_simp
  have rl: "readlines ?content = [?l0, ?l1]" by code_simp
  have i0: "0 < length (readlines ?content)" and i1: "1 < length (readlines ?content)"
    and n0: "readlines ?content ! 0 = ?l0" and n1: "readlines ?content ! 1 = ?l1"
    and len: "length (readlines ?content) = 2"
    unfolding rl by simp_all
  have m0: "PACKAGE_REGEX_match ?l0 = Some ''requests''" by code_simp
  have m1: "PACKAGE_REGEX_match ?l1 = Some ''Flask[async]''" by code_simp
  have e0: "\<not> str_in ''=='' ?l0" by code_simp
  have e1: "\<not> str_in ''=='' ?l1" by code_simp
  have c1: "\<not> str_in ''#'' ?l1" by code_simp
  have k1: "package_key ''Flask[async]'' = ''flask''" by code_simp
  have p0: "installed_packages (universal_newlines ?raw) (package_key ''requests'')
      = Some ''requests==2.31.0''"
    by code_simp
  have p1: "installed_packages (universal_newlines ?raw) (package_key ''Flask[async]'')
      = Some ''Flask==2.0.1''"
    by code_simp
  have m0': "PACKAGE_REGEX_match (readlines ?content ! 0) = Some ''requests''"
    unfolding n0 by (rule m0)
  have e0': "\<not> str_in ''=='' (readlines ?content ! 0)"
    unfolding n0 by (rule e0)
  have m1': "PACKAGE_REGEX_match (readlines ?content ! 1) = Some ''Flask[async]''"
    unfolding n1 by (rule m1)
  have e1': "\<not> str_in ''=='' (readlines ?content ! 1)"
    unfolding n1 by (rule e1)
  note t0 = pin_found_rewrites [where w = ?w and proc = sample_pip and venv = ?venv
      and content = ?content and raw = ?raw and se = "[]" and ?fs1.0 = "fs ?w" and i = 0
      and g = "''requests''" and pinned_version = "''requests==2.31.0''",
      OF h1 h2 h3 i0 m0' e0' p0]
  note t1 = pin_found_rewrites [where w = ?w and proc = sample_pip and venv = ?venv
      and content = ?content and raw = ?raw and se = "[]" and ?fs1.0 = "fs ?w" and i = 1
      and g = "''Flask[async]''" and pinned_version = "''Flask==2.0.1''",
      OF h1 h2 h3 i1 m1' e1' p1]
  from t0 obtain written where r: "fst (pin_dependencies sample_pip ?venv ?w) = Inr ()"
    and l: "lookup (snd (pin_dependencies sample_pip ?venv ?w)) [REQUIREMENTS_FILE]
              = Some (File written)"
    and ln: "length (readlines written) = length (readlines ?content)"
    and cm: "\<And>a b. readlines ?content ! 0 = a @ ''#'' @ b \<and> \<not> str_in ''#'' a \<Longrightarrow>
           readlines written ! 0 = ''requests==2.31.0'' @ ''  # '' @ strip b @ ''\<newline>''"
    by blast
  from t1 obtain written' where l': "lookup (snd (pin_dependencies sample_pip ?venv ?w))
              [REQUIREMENTS_FILE] = Some (File written')"
    and pl: "\<not> str_in ''#'' (readlines ?content ! 1) \<longrightarrow>
           readlines written' ! 1 = ''Flask==2.0.1'' @ ''\<newline>''"
    by blast
  from l l' have same: "written' = written" by simp
  have s: "\<not> str_in ''#'' ''  requests  ''" by code_simp
  from cm [of "''  requests  ''" "'' pinned above\<newline>''"] s
  have "readlines written ! 0 = ''requests==2.31.0'' @ ''  # '' @ strip '' pinned above\<newline>'' @ ''\<newline>''"
    by (simp add: n0)
  moreover have "strip '' pinned above\<newline>'' = ''pinned above''" by code_simp
  ultimately have w0: "readlines written ! 0 = ''requests==2.31.0  # pinned above\<newline>''"
    by simp
  have c1': "\<not> str_in ''#'' (readlines ?content ! 1)"
    unfolding n1 by (rule c1)
  with pl have "readlines written' ! 1 = ''Flask==2.0.1'' @ ''\<newline>''"
    by blast
  with same have w1: "readlines written ! 1 = ''Flask==2.0.1\<newline>''"
    by simp
  from ln len have w2: "length (readlines written) = 2" by simp
  from l w2 w0 w1 have ex: "\<exists>written.
         lookup (snd (pin_dependencies sample_pip ?venv ?w)) [REQUIREMENTS_FILE] = Some (File written)
         \<and> length (readlines written) = 2
         \<and> readlines written ! 0 = ''requests==2.31.0  # pinned above\<newline>''
         \<and> readlines written ! 1 = ''Flask==2.0.1\<newline>''"
    by blast
  from h1 h2 h3 rl m0 e0 p0 m1 e1 c1 k1 p1 r ex show ?thesis by blast
qed

section \<open>Idempotence of the pinning stage\<close>

lemma pin_stage_idempotent:
  assumes "\<forall>files. proc [path_str venv, ''-m'', ''pip'', ''freeze''] files = (Completed 0 raw se, files)"
  shows "fst (pin_dependencies proc venv w) =
           (if lookup w [REQUIREMENTS_FILE] = Some Dir
            then Inl (is_a_directory [REQUIREMENTS_FILE]) else Inr ())
     \<and> fst (pin_dependencies proc venv (snd (pin_dependencies proc venv w)))
         = fst (pin_dependencies proc venv w)
     \<and> fs (snd (pin_dependencies proc venv (snd (pin_dependencies proc venv w))))
         = fs (snd (pin_dependencies proc venv w))"
proof -
  let ?cmd = "[path_str venv, ''-m'', ''pip'', ''freeze'']"
  let ?w1 = "snd (pin_dependencies proc venv w)"
  let ?m = "installed_packages (universal_newlines raw)"
  have p: "\<And>w. proc ?cmd (fs w) = (Completed 0 raw se, fs w)"
    using assms by simp
  note first = pin_dependencies_files [where proc = proc and venv = venv and w = w
      and raw = raw and se = se and ?fs1.0 = "fs w", OF p [of w]]
  note second = pin_dependencies_files [where proc = proc and venv = venv and w = ?w1
      and raw = raw and se = se and ?fs1.0 = "fs ?w1", OF p [of ?w1]]
  show ?thesis
  proof (cases "lookup w [REQUIREMENTS_FILE]")
    case None
    then have f: "fs ?w1 = fs w" and r: "fst (pin_dependencies proc venv w) = Inr ()"
      using first by simp_all
    from f None have "lookup ?w1 [REQUIREMENTS_FILE] = None"
      by (simp add: lookup_def)
    then show ?thesis using second r None by simp
  next
    case (Some n)
    show ?thesis
    proof (cases n)
      case Dir
      with Some have f: "fs ?w1 = fs w"
        and r: "fst (pin_dependencies proc venv w) = Inl (is_a_directory [REQUIREMENTS_FILE])"
        using first by simp_all
      from f Some Dir have "lookup ?w1 [REQUIREMENTS_FILE] = Some Dir"
        by (simp add: lookup_def)
      then show ?thesis using second r Some Dir by simp
    next
      case (File content)
      with Some have nd: "map_of (fs w) [REQUIREMENTS_FILE] \<noteq> Some Dir"
        by (simp add: lookup_def)
      show ?thesis
      proof (cases "needs_pinning (readlines content)")
        case False
        then have f: "fs ?w1 = fs w" and r: "fst (pin_dependencies proc venv w) = Inr ()"
          using first Some File by simp_all
        from f Some File have "lookup ?w1 [REQUIREMENTS_FILE] = Some (File content)"
          by (simp add: lookup_def)
        then show ?thesis using second False r Some File by simp
      next
        case True
        let ?pinned = "writelines (pin_lines ?m (readlines content))"
        have f1: "fs ?w1 = AList.update [REQUIREMENTS_FILE] (File ?pinned) (fs w)"
          and r: "fst (pin_dependencies proc venv w) = Inr ()"
          using first Some File True nd by simp_all
        from f1 have r1: "lookup ?w1 [REQUIREMENTS_FILE] = Some (File ?pinned)"
          and nd1: "map_of (fs ?w1) [REQUIREMENTS_FILE] \<noteq> Some Dir"
          by (simp_all add: lookup_def update_conv')
        have again: "writelines (pin_lines ?m (readlines ?pinned)) = ?pinned"
          using pin_text_idem [of raw content] unfolding Let_def by blast
        have "fst (pin_dependencies proc venv ?w1) = Inr ()"
          using second r1 nd1 by simp
        moreover have "fs (snd (pin_dependencies proc venv ?w1)) = fs ?w1"
          using second r1 nd1 again f1 by (simp add: update_last)
        ultimately show ?thesis using r Some File by simp
      qed
    qed
  qed
qed

text \<open>
  Claim C5. Pinning is idempotent. For the installed-package map built from any freeze
  output (and for any map whose values all hold \<open>==\<close>, as the values of that map do),
  pinning the lines a first pinning returned changes nothing. On the text of the file,
  what a first run writes reads back as the lines that run produced, and pinning them
  again writes the same text. For the stage: when the freeze command succeeds with the
  same output and leaves the files alone, the stage returns, a second run after a first
  one returns too and leaves every file as the first run left it. Where a directory
  stands in the place of the root manifest, both runs raise IsADirectoryError and
  change no file.
\<close>

theorem pin_idempotent:
  "pin_lines (installed_packages stdout) (pin_lines (installed_packages stdout) lines)
     = pin_lines (installed_packages stdout) lines
   \<and> ((\<forall>k v. installed k = Some v \<longrightarrow> str_in ''=='' v) \<longrightarrow>
        pin_lines installed (pin_lines installed lines) = pin_lines installed lines)
   \<and> (let installed = installed_packages (universal_newlines raw);
           pinned = writelines (pin_lines installed (readlines content))
       in readlines pinned = pin_lines installed (readlines content)
          \<and> writelines (pin_lines installed (readlines pinned)) = pinned)
   \<and> ((\<forall>files. proc [path_str venv, ''-m'', ''pip'', ''freeze''] files
                  = (Completed 0 raw se, files)) \<longrightarrow>
        (lookup w [REQUIREMENTS_FILE] \<noteq> Some Dir \<longrightarrow>
           fst (pin_dependencies proc venv w) = Inr ()
           \<and> fst (pin_dependencies proc venv (snd (pin_dependencies proc venv w))) = Inr ())
        \<and> (lookup w [REQUIREMENTS_FILE] = Some Dir \<longrightarrow>
             fst (pin_dependencies proc venv w) = Inl (is_a_directory [REQUIREMENTS_FILE])
             \<and> fst (pin_dependencies proc venv (snd (pin_dependencies proc venv w)))
                 = Inl (is_a_directory [REQUIREMENTS_FILE])
             \<and> fs (snd (pin_dependencies proc venv w)) = fs w)
        \<and> fs (snd (pin_dependencies proc venv (snd (pin_dependencies proc venv w))))
            = fs (snd (pin_dependencies proc venv w)))"
proof (intro conjI impI)
  show "pin_lines (installed_packages stdout) (pin_lines (installed_packages stdout) lines)
     = pin_lines (installed_packages stdout) lines"
    by (rule pin_lines_idem)
next
  assume "\<forall>k v. installed k = Some v \<longrightarrow> str_in ''=='' v"
  then show "pin_lines installed (pin_lines installed lines) = pin_lines installed lines"
    by (simp add: pin_lines_map pin_line_idem)
next
  show "let installed = installed_packages (universal_newlines raw);
           pinned = writelines (pin_lines installed (readlines content))
       in readlines pinned = pin_lines installed (readlines content)
          \<and> writelines (pin_lines installed (readlines pinned)) = pinned"
    by (rule pin_text_idem)
next
  assume a: "\<forall>files. proc [path_str venv, ''-m'', ''pip'', ''freeze''] files
                  = (Completed 0 raw se, files)"
    and n: "lookup w [REQUIREMENTS_FILE] \<noteq> Some Dir"
  from pin_stage_idempotent [of proc venv raw se w] a n
  show "fst (pin_dependencies proc venv w) = Inr ()"
    and "fst (pin_dependencies proc venv (snd (pin_dependencies proc venv w))) = Inr ()"
    by simp_all
next
  assume a: "\<forall>files. proc [path_str venv, ''-m'', ''pip'', ''freeze''] files
                  = (Completed 0 raw se, files)"
    and d: "lookup w [REQUIREMENTS_FILE] = Some Dir"
  from pin_stage_idempotent [of proc venv raw se w] a d
  show "fst (pin_dependencies proc venv w) = Inl (is_a_directory [REQUIREMENTS_FILE])"
    and "fst (pin_dependencies proc venv (snd (pin_dependencies proc venv w)))
                 = Inl (is_a_directory [REQUIREMENTS_FILE])"
    by simp_all
  from a have "proc [path_str venv, ''-m'', ''pip'', ''freeze''] (fs w) = (Completed 0 raw se, fs w)"
    by simp
  from pin_dependencies_files [where proc = proc and venv = venv and w = w
      and raw = raw and se = se and ?fs1.0 = "fs w", OF this] d
  show "fs (snd (pin_dependencies proc venv w)) = fs w"
    by simp
next
  assume "\<forall>files. proc [path_str venv, ''-m'', ''pip'', ''freeze''] files
                  = (Completed 0 raw se, files)"
  with pin_stage_idempotent [of proc venv raw se w]
  show "fs (snd (pin_dependencies proc venv (snd (pin_dependencies proc venv w))))
            = fs (snd (pin_dependencies proc venv w))"
    by blast
qed

theorem pin_idempotent_witness:
  "(\<forall>files. sample_pip [path_str PYTHON_VENV_EXECUTABLE, ''-m'', ''pip'', ''freeze''] files
              = (Completed 0 ''Flask==2.0.1\<newline>requests==2.31.0\<newline>'' [], files))
   \<and> lookup (flask_project []) [REQUIREMENTS_FILE] = Some (File ''flask\<newline>'')
   \<and> lookup (flask_project []) [REQUIREMENTS_FILE] \<noteq> Some Dir
   \<and> fst (pin_dependencies sample_pip PYTHON_VENV_EXECUTABLE (flask_project [])) = Inr ()
   \<and> lookup (snd (pin_dependencies sample_pip PYTHON_VENV_EXECUTABLE (flask_project [])))
        [REQUIREMENTS_FILE] = Some (File ''Flask==2.0.1\<newline>'')
   \<and> fst (pin_dependencies sample_pip PYTHON_VENV_EXECUTABLE
             (snd (pin_dependencies sample_pip PYTHON_VENV_EXECUTABLE (flask_project [])))) = Inr ()
   \<and> fs (snd (pin_dependencies sample_pip PYTHON_VENV_EXECUTABLE
              (snd (pin_dependencies sample_pip PYTHON_VENV_EXECUTABLE (flask_project [])))))
       = fs (snd (pin_dependencies sample_pip PYTHON_VENV_EXECUTABLE (flask_project [])))
   \<and> lookup folder_as_root_manifest [REQUIREMENTS_FILE] = Some Dir
   \<and> fst (pin_dependencies sample_pip PYTHON_VENV_EXECUTABLE folder_as_root_manifest)
       = Inl (is_a_directory [REQUIREMENTS_FILE])
   \<and> fs (snd (pin_dependencies sample_pip PYTHON_VENV_EXECUTABLE folder_as_root_manifest))
       = fs folder_as_root_manifest
   \<and> str_in ''=='' ''requests==2.31.0''
   \<and> pin_lines [''requests'' \<mapsto> ''requests==2.31.0'']
         (pin_lines [''requests'' \<mapsto> ''requests==2.31.0''] [''requests\<newline>'', ''numpy\<newline>''])
       = pin_lines [''requests'' \<mapsto> ''requests==2.31.0''] [''requests\<newline>'', ''numpy\<newline>'']
   \<and> pin_lines [''requests'' \<mapsto> ''requests==2.31.0''] [''requests\<newline>'', ''numpy\<newline>'']
       = [''requests==2.31.0\<newline>'', ''numpy\<newline>'']"
proof -
  let ?m = "[''requests'' \<mapsto> ''requests==2.31.0'']"
  let ?ls = "[''requests\<newline>'', ''numpy\<newline>'']"
  let ?venv = PYTHON_VENV_EXECUTABLE
  have v: "path_str ?venv = ''venv/bin/python''" by code_simp
  have h: "\<forall>files. sample_pip [path_str ?venv, ''-m'', ''pip'', ''freeze''] files
              = (Completed 0 ''Flask==2.0.1\<newline>requests==2.31.0\<newline>'' [], files)"
    by (simp add: v sample_pip_def)
  have a: "lookup (flask_project []) [REQUIREMENTS_FILE] = Some (File ''flask\<newline>'')"
    by code_simp
  then have a': "lookup (flask_project []) [REQUIREMENTS_FILE] \<noteq> Some Dir"
    by simp
  have b: "lookup (snd (pin_dependencies sample_pip ?venv (flask_project [])))
        [REQUIREMENTS_FILE] = Some (File ''Flask==2.0.1\<newline>'')"
    by code_simp
  have d0: "lookup folder_as_root_manifest [REQUIREMENTS_FILE] = Some Dir"
    by code_simp
  have e: "str_in ''=='' ''requests==2.31.0''" by code_simp
  then have g: "\<forall>k v. ?m k = Some v \<longrightarrow> str_in ''=='' v"
    by (auto split: if_splits)
  note t = pin_idempotent [where proc = sample_pip and venv = ?venv
      and raw = "''Flask==2.0.1\<newline>requests==2.31.0\<newline>''" and se = "[]"
      and w = "flask_project []" and installed = ?m and lines = ?ls]
  note u = pin_idempotent [where proc = sample_pip and venv = ?venv
      and raw = "''Flask==2.0.1\<newline>requests==2.31.0\<newline>''" and se = "[]"
      and w = folder_as_root_manifest and installed = ?m and lines = ?ls]
  from t h a'
  have r1: "fst (pin_dependencies sample_pip ?venv (flask_project [])) = Inr ()"
    and r2: "fst (pin_dependencies sample_pip ?venv
             (snd (pin_dependencies sample_pip ?venv (flask_project [])))) = Inr ()"
    by blast+
  from t h
  have c: "fs (snd (pin_dependencies sample_pip ?venv
              (snd (pin_dependencies sample_pip ?venv (flask_project [])))))
       = fs (snd (pin_dependencies sample_pip ?venv (flask_project [])))"
    by blast
  from u h d0
  have d1: "fst (pin_dependencies sample_pip ?venv folder_as_root_manifest)
       = Inl (is_a_directory [REQUIREMENTS_FILE])"
    and d2: "fs (snd (pin_dependencies sample_pip ?venv folder_as_root_manifest))
       = fs folder_as_root_manifest"
    by blast+
  from t g have d: "pin_lines ?m (pin_lines ?m ?ls) = pin_lines ?m ?ls"
    by blast
  have f: "pin_lines ?m ?ls = [''requests==2.31.0\<newline>'', ''numpy\<newline>'']"
    by code_simp
  from h a a' r1 b r2 c d0 d1 d2 e d f show ?thesis by blast
qed


end
